theory Spec2Isabelle
  imports Complex_Main
begin

section \<open>Python values used by the summarizer\<close>

text \<open>
  A Python \<open>str\<close> is a sequence of Unicode code points. A code point is a natural number and
  a string a list of them, so that titles outside ASCII (the usual case for this program)
  are part of the model. \<open>ustr\<close> reads an ASCII literal.
\<close>

type_synonym pychar = nat
type_synonym pystr = "nat list"

definition ustr :: "string \<Rightarrow> pystr" where
  "ustr s = map of_char s"

text \<open>
  \<open>str.isalnum\<close> on one character. On ASCII it is the digits and the letters; beyond ASCII
  it is a table of the Unicode database, which is taken as the parameter \<open>uni\<close>.
\<close>

definition isalnum :: "(pychar \<Rightarrow> bool) \<Rightarrow> pychar \<Rightarrow> bool" where
  "isalnum uni c =
     (if c < 128 then (48 \<le> c \<and> c \<le> 57) \<or> (65 \<le> c \<and> c \<le> 90) \<or> (97 \<le> c \<and> c \<le> 122)
      else uni c)"

text \<open>The characters that \<open>str.strip\<close> and \<open>str.rstrip\<close> remove when called without argument.\<close>

definition isspace :: "pychar \<Rightarrow> bool" where
  "isspace c =
     ((9 \<le> c \<and> c \<le> 13) \<or> (28 \<le> c \<and> c \<le> 32) \<or> c = 133 \<or> c = 160 \<or> c = 5760
      \<or> (8192 \<le> c \<and> c \<le> 8202) \<or> c = 8232 \<or> c = 8233 \<or> c = 8239 \<or> c = 8287
      \<or> c = 12288)"

definition rstrip :: "pystr \<Rightarrow> pystr" where
  "rstrip s = rev (dropWhile isspace (rev s))"

definition lstrip :: "pystr \<Rightarrow> pystr" where
  "lstrip s = dropWhile isspace s"

definition strip :: "pystr \<Rightarrow> pystr" where
  "strip s = rstrip (lstrip s)"

text \<open>\<open>sep.join(parts)\<close>.\<close>

fun py_join :: "pystr \<Rightarrow> pystr list \<Rightarrow> pystr" where
  "py_join sep [] = []"
| "py_join sep [x] = x"
| "py_join sep (x # y # ys) = x @ sep @ py_join sep (y # ys)"

text \<open>Decimal digits of a natural number, \<open>str(n)\<close> and the format \<open>{n:03d}\<close> of an integer.\<close>

fun digits :: "nat \<Rightarrow> pystr" where
  "digits n = (if n < 10 then [48 + n] else digits (n div 10) @ [48 + n mod 10])"

declare digits.simps [simp del]

definition str_int :: "int \<Rightarrow> pystr" where
  "str_int i = (if i < 0 then 45 # digits (nat (- i)) else digits (nat i))"

definition zfill :: "nat \<Rightarrow> pystr \<Rightarrow> pystr" where
  "zfill k s = replicate (k - length s) 48 @ s"

definition fmt_03d :: "int \<Rightarrow> pystr" where
  "fmt_03d i = (if i < 0 then 45 # zfill 2 (digits (nat (- i))) else zfill 3 (digits (nat i)))"

text \<open>\<open>os.path.join(a, b)\<close> with two arguments, on POSIX.\<close>

definition os_path_join :: "pystr \<Rightarrow> pystr \<Rightarrow> pystr" where
  "os_path_join a b =
     (if b \<noteq> [] \<and> hd b = 47 then b
      else if a = [] \<or> last a = 47 then a @ b
      else a @ [47] @ b)"

text \<open>
  Exceptions. The page processor distinguishes \<open>aiohttp.ClientError\<close> and
  \<open>asyncio.TimeoutError\<close> from every other subclass of \<open>Exception\<close>. What is raised outside
  \<open>Exception\<close> (a cancellation, a keyboard interrupt) ends the process and is not modelled.
\<close>

datatype pyexc = ClientError | TimeoutError | OtherException

fun is_network_error :: "pyexc \<Rightarrow> bool" where
  "is_network_error ClientError = True"
| "is_network_error TimeoutError = True"
| "is_network_error OtherException = False"

section \<open>The world: files, directories and what the program did\<close>

datatype level = INFO | WARNING | ERROR

text \<open>One constructor per logging call of the source, with the values it formats.\<close>

datatype logmsg =
    CleaningUp pystr int
  | ErrorRemoving pystr
  | RemovedCount nat
  | NoOutdated
  | SuccessfullySaved pystr
  | LoadingFromCache int
  | NoCacheFound int
  | FoundOfficial int
  | NoOfficial int
  | SavingToCache int
  | Processing int pystr
  | SubtitleEmpty int
  | SummaryFailed int
  | NetworkError int nat nat
  | FailedAfterRetries int nat
  | UnexpectedError int
  | FoundPages nat pystr
  | FailedPages pystr
  | Skipping int pystr
  | FoundVideos nat "int option"
  | FailedPagesSkipVideo pystr
  | CredentialNotFound

text \<open>Calls of the collaborators: the video platform, HTTP, audio download, Whisper, the LLM.\<close>

datatype call =
    GetVideos "int option"
  | GetPages pystr
  | GetCid pystr int
  | GetSubtitleMeta pystr int
  | SessionGet pystr
  | DownloadAudio pystr int
  | Transcribe nat pystr pystr
  | Acompletion pystr pystr

text \<open>
  The trace records, in order, every log line, sleep, collaborator call and file operation.
  \<open>FileWrite p b\<close>: the file at \<open>p\<close> was opened for writing and written; \<open>b\<close> tells
  whether a file was there before (so that the write replaced it).
\<close>

datatype event =
    Log level logmsg
  | Sleep nat
  | Call call
  | FileWrite pystr bool
  | FileRemove pystr
  | MakeDirs pystr

text \<open>
  The file system is a map from paths to the contents of regular files and a set of
  directories. Failures of the operating system (permissions, a full disk) are not part of
  the model, except where the source handles them (in \<open>cleanup_cache\<close>).
\<close>

record world =
  files :: "pystr \<rightharpoonup> pystr"
  dirs :: "pystr set"
  trace :: "event list"

definition emit :: "event \<Rightarrow> world \<Rightarrow> world" where
  "emit e w = w\<lparr>trace := trace w @ [e]\<rparr>"

definition logging :: "level \<Rightarrow> logmsg \<Rightarrow> world \<Rightarrow> world" where
  "logging l m w = emit (Log l m) w"

definition os_path_exists :: "world \<Rightarrow> pystr \<Rightarrow> bool" where
  "os_path_exists w p = (files w p \<noteq> None \<or> p \<in> dirs w)"

definition os_path_isfile :: "world \<Rightarrow> pystr \<Rightarrow> bool" where
  "os_path_isfile w p = (files w p \<noteq> None)"

definition os_makedirs :: "pystr \<Rightarrow> world \<Rightarrow> world" where
  "os_makedirs p w = emit (MakeDirs p) (w\<lparr>dirs := insert p (dirs w)\<rparr>)"

definition write_file :: "pystr \<Rightarrow> pystr \<Rightarrow> world \<Rightarrow> world" where
  "write_file p content w =
     emit (FileWrite p (files w p \<noteq> None)) (w\<lparr>files := (files w)(p \<mapsto> content)\<rparr>)"

section \<open>The collaborators\<close>

text \<open>A page as the platform lists it: the dictionary with the keys \<open>page\<close> and \<open>part\<close>.\<close>

record page_details =
  page :: int
  part :: pystr

text \<open>The command line arguments (\<open>argparse.Namespace\<close>).\<close>

record args =
  arg_bvid :: pystr
  arg_season_id :: "int option"
  arg_start_page :: int
  arg_end_page :: "int option"
  arg_prompt :: pystr
  arg_output_dir :: pystr
  arg_device :: pystr
  arg_model_size :: pystr

text \<open>The HTTP response of the subtitle document: its status and what \<open>response.json()\<close>
  gives, reduced to the \<open>content\<close> fields of \<open>j["body"]\<close>.\<close>

record http_response =
  status :: nat
  json_body :: "pyexc + pystr list"

text \<open>The shapes of a completion response that \<open>summarize\<close> tells apart.\<close>

datatype msg_content = StrContent pystr | NotStr
datatype message = Message msg_content | NotMessage
datatype choice = Choices message | NotChoices
datatype choices = ChoiceList "choice list" | NotList
datatype completion = ModelResponse choices | NotModelResponse

text \<open>
  Everything outside the repository is a parameter. A collaborator that talks to the network
  answers differently from call to call, so each one reads the trace so far: its answer may
  depend on everything that happened before, and on nothing else. A video object is named
  by its \<open>bvid\<close>. The last four fields are the operating system as \<open>cleanup_cache\<close> sees it:
  the listing of a directory, the modification time of a file (\<open>None\<close> where \<open>os.path.getmtime\<close>
  raises \<open>OSError\<close>), whether \<open>os.remove\<close> raises \<open>OSError\<close>, the clock, and the environment
  variable \<open>SESSDATA\<close>. Times are real
  numbers; the rounding of floating point numbers is not modelled.
\<close>

record env =
  unicode_alnum :: "pychar \<Rightarrow> bool"
  series_get_videos :: "event list \<Rightarrow> int option \<Rightarrow> pyexc + pystr list"
  v_get_pages :: "event list \<Rightarrow> pystr \<Rightarrow> pyexc + page_details list"
  v_get_cid :: "event list \<Rightarrow> pystr \<Rightarrow> int \<Rightarrow> pyexc + int"
  v_get_subtitle :: "event list \<Rightarrow> pystr \<Rightarrow> int \<Rightarrow> pyexc + pystr list option"
  session_get :: "event list \<Rightarrow> pystr \<Rightarrow> pyexc + http_response"
  download_audio :: "event list \<Rightarrow> pystr \<Rightarrow> int \<Rightarrow> pyexc + nat"
  model_transcribe :: "event list \<Rightarrow> nat \<Rightarrow> pystr \<Rightarrow> pystr \<Rightarrow> pyexc + pystr list"
  litellm_acompletion :: "event list \<Rightarrow> pystr \<Rightarrow> pystr \<Rightarrow> pyexc + completion"
  os_listdir :: "pystr \<Rightarrow> pystr list"
  os_path_getmtime :: "pystr \<Rightarrow> real option"
  os_remove_fails :: "pystr \<Rightarrow> bool"
  time_time :: real
  os_getenv_SESSDATA :: "pystr option"

text \<open>A computation that may raise: the exception or the value, and the world it leaves.\<close>

type_synonym 'a result = "(pyexc + 'a) \<times> world"

definition bind_exc :: "'a result \<Rightarrow> ('a \<Rightarrow> world \<Rightarrow> 'b result) \<Rightarrow> 'b result" where
  "bind_exc m f = (case m of (Inl e, w) \<Rightarrow> (Inl e, w) | (Inr x, w) \<Rightarrow> f x w)"

text \<open>Calling a collaborator: it answers from the trace so far, and the call is recorded.\<close>

definition await :: "call \<Rightarrow> (event list \<Rightarrow> pyexc + 'a) \<Rightarrow> world \<Rightarrow> 'a result" where
  "await c f w = (f (trace w), emit (Call c) w)"

definition asyncio_sleep :: "nat \<Rightarrow> world \<Rightarrow> world" where
  "asyncio_sleep n w = emit (Sleep n) w"

section \<open>The output writer\<close>

text \<open>
  The expression that cleans a title,
  \<open>"".join(c for c in filename if c.isalnum() or c in (' ', '.', '_', '-')).rstrip()\<close>,
  and the f-string \<open>f"P{page_number:03d}_{safe_filename}.md"\<close> stand three times in the
  source: in \<open>save\<close>, in \<open>process_bvid\<close> and in \<open>process_season\<close>. Each copy is
  transcribed where it stands.
\<close>

definition save :: "env \<Rightarrow> int \<Rightarrow> pystr \<Rightarrow> pystr \<Rightarrow> pystr \<Rightarrow> world \<Rightarrow> pystr \<times> world" where
  "save en page_number filename content output_dir w =
     (let safe_filename =
            rstrip (filter (\<lambda>c. isalnum (unicode_alnum en) c \<or> c \<in> set [32, 46, 95, 45]) filename);
          w1 = os_makedirs output_dir w;
          file_path = os_path_join output_dir
                        ([80] @ fmt_03d page_number @ [95] @ safe_filename @ ustr ''.md'');
          w2 = write_file file_path content w1;
          w3 = logging INFO (SuccessfullySaved file_path) w2
      in (file_path, w3))"

section \<open>The subtitle resolver\<close>

definition CACHE_DIR :: pystr where
  "CACHE_DIR = ustr ''.cache/subtitles''"

definition CACHE_MAX_AGE_DAYS :: int where
  "CACHE_MAX_AGE_DAYS = 30"

text \<open>\<open>generate_subtitles(audio, "text", device=..., model_size=...)\<close>: the texts of the segments,
  each stripped, joined by newlines. The progress bar is left out.\<close>

definition generate_subtitles :: "env \<Rightarrow> nat \<Rightarrow> pystr \<Rightarrow> pystr \<Rightarrow> world \<Rightarrow> pystr result" where
  "generate_subtitles en audio device model_size w =
     bind_exc (await (Transcribe audio device model_size)
                 (\<lambda>h. model_transcribe en h audio device model_size) w)
       (\<lambda>segments w1. (Inr (py_join [10] (map strip segments)), w1))"

definition cache_file_path :: "pystr \<Rightarrow> int \<Rightarrow> pystr" where
  "cache_file_path bvid page_number =
     os_path_join CACHE_DIR ((bvid @ [95] @ str_int page_number) @ ustr ''.txt'')"

text \<open>The branch of \<open>get_subtitle\<close> that downloads the first official subtitle track.\<close>

definition official_subtitles :: "env \<Rightarrow> pystr \<Rightarrow> world \<Rightarrow> pystr result" where
  "official_subtitles en subtitle_url w =
     (let url = ustr ''https:'' @ subtitle_url in
      bind_exc (await (SessionGet url) (\<lambda>h. session_get en h url) w)
        (\<lambda>response w1.
           if 400 \<le> status response then (Inl ClientError, w1)
           else (case json_body response of
                   Inl e \<Rightarrow> (Inl e, w1)
                 | Inr body \<Rightarrow> (Inr (py_join [10] body), w1))))"

definition get_subtitle ::
  "env \<Rightarrow> pystr \<Rightarrow> int \<Rightarrow> pystr \<Rightarrow> pystr \<Rightarrow> world \<Rightarrow> pystr option result" where
  "get_subtitle en bvid page_number device model_size w =
     (let p = cache_file_path bvid page_number in
      if os_path_exists w p then
        (let w1 = logging INFO (LoadingFromCache page_number) w in
         case files w1 p of
           Some text \<Rightarrow> (Inr (Some text), w1)
         | None \<Rightarrow> (Inl OtherException, w1))
      else
        (let w1 = logging INFO (NoCacheFound page_number) w in
         bind_exc (await (GetCid bvid (page_number - 1))
                     (\<lambda>h. v_get_cid en h bvid (page_number - 1)) w1)
           (\<lambda>cid w2.
              bind_exc (await (GetSubtitleMeta bvid cid) (\<lambda>h. v_get_subtitle en h bvid cid) w2)
                (\<lambda>subtitle_data w3.
                   bind_exc
                     (case subtitle_data of
                        Some (track # tracks) \<Rightarrow>
                          official_subtitles en track (logging INFO (FoundOfficial page_number) w3)
                      | _ \<Rightarrow>
                          bind_exc (await (DownloadAudio bvid page_number)
                                      (\<lambda>h. download_audio en h bvid page_number)
                                      (logging INFO (NoOfficial page_number) w3))
                            (\<lambda>audio_file w4. generate_subtitles en audio_file device model_size w4))
                     (\<lambda>subtitle_text w5.
                        if subtitle_text \<noteq> [] \<and> strip subtitle_text \<noteq> []
                        then (Inr (Some subtitle_text),
                              write_file p subtitle_text (logging INFO (SavingToCache page_number) w5))
                        else (Inr (Some subtitle_text), w5))))))"

section \<open>The summarizer adapter and the prompt loader\<close>

definition summary_request :: pystr where
  "summary_request = [20197, 26368, 31616, 12289, 39640, 25928, 12289, 31185, 23398, 30340,
     26041, 24335, 24635, 32467, 20197, 19979, 20869, 23481, 65306]"

fun first_content :: "completion \<Rightarrow> pystr option" where
  "first_content (ModelResponse (ChoiceList (Choices (Message (StrContent s)) # cs))) = Some s"
| "first_content r = None"

definition summarize :: "env \<Rightarrow> pystr \<Rightarrow> pystr \<Rightarrow> world \<Rightarrow> pystr option result" where
  "summarize en content prompt w =
     bind_exc (await (Acompletion prompt (summary_request @ content))
                 (\<lambda>h. litellm_acompletion en h prompt (summary_request @ content)) w)
       (\<lambda>response w1. (Inr (first_content response), w1))"

definition read_prompt :: "pystr \<Rightarrow> world \<Rightarrow> pystr result" where
  "read_prompt filename w =
     (case files w (ustr ''prompt/'' @ filename @ ustr ''.md'') of
        Some content \<Rightarrow> (Inr content, w)
      | None \<Rightarrow> (Inl OtherException, w))"

section \<open>The page processor\<close>

text \<open>The body of the \<open>try\<close> block of \<open>process_page\<close>, for one attempt.\<close>

definition attempt_page ::
  "env \<Rightarrow> pystr \<Rightarrow> page_details \<Rightarrow> pystr \<Rightarrow> args \<Rightarrow> int \<Rightarrow> world \<Rightarrow> unit result" where
  "attempt_page en bvid page_details prompt_text ar save_page_number w =
     (let page_number = page page_details; title = part page_details;
          w1 = logging INFO (Processing save_page_number title) w in
      bind_exc (get_subtitle en bvid page_number (arg_device ar) (arg_model_size ar) w1)
        (\<lambda>subtitle_text w2.
           case subtitle_text of
             None \<Rightarrow> (Inr (), logging WARNING (SubtitleEmpty save_page_number) w2)
           | Some text \<Rightarrow>
               if text = [] \<or> strip text = []
               then (Inr (), logging WARNING (SubtitleEmpty save_page_number) w2)
               else bind_exc (summarize en text prompt_text w2)
                      (\<lambda>summary w3.
                         case summary of
                           None \<Rightarrow> (Inr (), logging ERROR (SummaryFailed save_page_number) w3)
                         | Some s \<Rightarrow>
                             if s = []
                             then (Inr (), logging ERROR (SummaryFailed save_page_number) w3)
                             else (Inr (), snd (save en save_page_number title s
                                                  (arg_output_dir ar) w3)))))"

text \<open>
  The loop \<open>for attempt in range(max_retries)\<close> with its two handlers. \<open>body\<close> is the \<open>try\<close>
  block; the list holds the values of \<open>attempt\<close> still to come.
\<close>

fun retry_loop :: "(world \<Rightarrow> unit result) \<Rightarrow> int \<Rightarrow> nat \<Rightarrow> nat list \<Rightarrow> world \<Rightarrow> world" where
  "retry_loop body save_page_number max_retries [] w = w"
| "retry_loop body save_page_number max_retries (attempt # rest) w =
     (case body w of
        (Inr u, w1) \<Rightarrow> w1
      | (Inl e, w1) \<Rightarrow>
          if is_network_error e then
            (let w2 = logging WARNING (NetworkError save_page_number (attempt + 1) max_retries) w1 in
             if attempt + 1 = max_retries
             then retry_loop body save_page_number max_retries rest
                    (logging ERROR (FailedAfterRetries save_page_number max_retries) w2)
             else retry_loop body save_page_number max_retries rest
                    (asyncio_sleep (5 * (attempt + 1)) w2))
          else logging ERROR (UnexpectedError save_page_number) w1)"

definition process_page ::
  "env \<Rightarrow> pystr \<Rightarrow> page_details \<Rightarrow> pystr \<Rightarrow> args \<Rightarrow> int option \<Rightarrow> world \<Rightarrow> world" where
  "process_page en bvid page_details prompt_text ar save_page_number w =
     (let max_retries = 3;
          save_page_number' = (case save_page_number of Some n \<Rightarrow> n | None \<Rightarrow> page page_details)
      in retry_loop (attempt_page en bvid page_details prompt_text ar save_page_number')
           save_page_number' max_retries [0..<max_retries] w)"

section \<open>The batch orchestrators\<close>

text \<open>The loop of \<open>process_bvid\<close> over \<open>pages_to_process\<close>.\<close>

fun bvid_pages :: "env \<Rightarrow> args \<Rightarrow> pystr \<Rightarrow> page_details list \<Rightarrow> world \<Rightarrow> world" where
  "bvid_pages en ar prompt_text [] w = w"
| "bvid_pages en ar prompt_text (pd # rest) w =
     (let title = part pd; page_number = page pd;
          safe_filename =
            rstrip (filter (\<lambda>c. isalnum (unicode_alnum en) c \<or> c \<in> set [32, 46, 95, 45]) title);
          output_path = os_path_join (arg_output_dir ar)
                          ([80] @ fmt_03d page_number @ [95] @ safe_filename @ ustr ''.md'')
      in if os_path_exists w output_path
         then bvid_pages en ar prompt_text rest (logging INFO (Skipping page_number title) w)
         else bvid_pages en ar prompt_text rest
                (process_page en (arg_bvid ar) pd prompt_text ar None w))"

definition process_bvid :: "env \<Rightarrow> args \<Rightarrow> world \<Rightarrow> unit result" where
  "process_bvid en ar w =
     bind_exc (read_prompt (arg_prompt ar) w)
       (\<lambda>prompt_text w1.
          case await (GetPages (arg_bvid ar)) (\<lambda>h. v_get_pages en h (arg_bvid ar)) w1 of
            (Inl e, w2) \<Rightarrow> (Inr (), logging ERROR (FailedPages (arg_bvid ar)) w2)
          | (Inr all_pages, w2) \<Rightarrow>
              (let w3 = logging INFO (FoundPages (length all_pages) (arg_bvid ar)) w2;
                   pages_to_process =
                     filter (\<lambda>p. arg_start_page ar \<le> page p \<and>
                                  (case arg_end_page ar of None \<Rightarrow> True | Some e \<Rightarrow> page p \<le> e))
                       all_pages
               in (Inr (), bvid_pages en ar prompt_text pages_to_process w3)))"

text \<open>The inner loop of \<open>process_season\<close>, over the pages of one video. It returns the
  counter with the world.\<close>

fun season_pages ::
  "env \<Rightarrow> args \<Rightarrow> pystr \<Rightarrow> pystr \<Rightarrow> int \<Rightarrow> page_details list \<Rightarrow> world \<Rightarrow> int \<times> world" where
  "season_pages en ar bvid prompt_text global_page_counter [] w = (global_page_counter, w)"
| "season_pages en ar bvid prompt_text global_page_counter (pd # rest) w =
     (let title = part pd;
          safe_filename =
            rstrip (filter (\<lambda>c. isalnum (unicode_alnum en) c \<or> c \<in> set [32, 46, 95, 45]) title);
          output_path = os_path_join (arg_output_dir ar)
                          ([80] @ fmt_03d global_page_counter @ [95] @ safe_filename @ ustr ''.md'')
      in if os_path_exists w output_path
         then season_pages en ar bvid prompt_text (global_page_counter + 1) rest
                (logging INFO (Skipping global_page_counter title) w)
         else season_pages en ar bvid prompt_text (global_page_counter + 1) rest
                (process_page en bvid pd prompt_text ar (Some global_page_counter) w))"

text \<open>The outer loop of \<open>process_season\<close>, over the videos. \<open>read_prompt\<close> stands outside the
  \<open>try\<close>: when it raises, so does the loop.\<close>

fun season_videos :: "env \<Rightarrow> args \<Rightarrow> int \<Rightarrow> pystr list \<Rightarrow> world \<Rightarrow> int result" where
  "season_videos en ar global_page_counter [] w = (Inr global_page_counter, w)"
| "season_videos en ar global_page_counter (bvid # rest) w =
     (case read_prompt (arg_prompt ar) w of
        (Inl e, w1) \<Rightarrow> (Inl e, w1)
      | (Inr prompt_text, w1) \<Rightarrow>
          (case await (GetPages bvid) (\<lambda>h. v_get_pages en h bvid) w1 of
             (Inl e, w2) \<Rightarrow>
               season_videos en ar global_page_counter rest
                 (logging ERROR (FailedPagesSkipVideo bvid) w2)
           | (Inr all_pages, w2) \<Rightarrow>
               (case season_pages en ar bvid prompt_text global_page_counter all_pages w2 of
                  (counter, w3) \<Rightarrow> season_videos en ar counter rest w3)))"

definition process_season :: "env \<Rightarrow> args \<Rightarrow> world \<Rightarrow> unit result" where
  "process_season en ar w =
     bind_exc (await (GetVideos (arg_season_id ar))
                 (\<lambda>h. series_get_videos en h (arg_season_id ar)) w)
       (\<lambda>archives w1.
          bind_exc (season_videos en ar 1 archives
                      (logging INFO (FoundVideos (length archives) (arg_season_id ar)) w1))
            (\<lambda>counter w2. (Inr (), w2)))"

section \<open>Cache eviction and the entry point\<close>

definition os_remove :: "pystr \<Rightarrow> world \<Rightarrow> world" where
  "os_remove p w = emit (FileRemove p) (w\<lparr>files := (files w)(p := None)\<rparr>)"

text \<open>The loop of \<open>cleanup_cache\<close> over \<open>os.listdir(directory)\<close>.\<close>

fun cleanup_files :: "env \<Rightarrow> pystr \<Rightarrow> real \<Rightarrow> nat \<Rightarrow> pystr list \<Rightarrow> world \<Rightarrow> nat \<times> world" where
  "cleanup_files en directory cutoff_time cleaned_count [] w = (cleaned_count, w)"
| "cleanup_files en directory cutoff_time cleaned_count (filename # rest) w =
     (let file_path = os_path_join directory filename in
      if os_path_isfile w file_path then
        (case os_path_getmtime en file_path of
           None \<Rightarrow>
             cleanup_files en directory cutoff_time cleaned_count rest
               (logging ERROR (ErrorRemoving file_path) w)
         | Some mtime \<Rightarrow>
             if mtime < cutoff_time then
               (if os_remove_fails en file_path
                then cleanup_files en directory cutoff_time cleaned_count rest
                       (logging ERROR (ErrorRemoving file_path) w)
                else cleanup_files en directory cutoff_time (cleaned_count + 1) rest
                       (os_remove file_path w))
             else cleanup_files en directory cutoff_time cleaned_count rest w)
      else cleanup_files en directory cutoff_time cleaned_count rest w)"

definition cleanup_cache :: "env \<Rightarrow> pystr \<Rightarrow> int \<Rightarrow> world \<Rightarrow> world" where
  "cleanup_cache en directory max_age_days w =
     (if \<not> os_path_exists w directory then w
      else
        (let w1 = logging INFO (CleaningUp directory max_age_days) w;
             cutoff_time = time_time en - real_of_int (max_age_days * 24 * 60 * 60)
         in case cleanup_files en directory cutoff_time 0 (os_listdir en directory) w1 of
              (cleaned_count, w2) \<Rightarrow>
                if 0 < cleaned_count then logging INFO (RemovedCount cleaned_count) w2
                else logging INFO NoOutdated w2))"

text \<open>
  \<open>main\<close> after the command line is parsed. Of the credentials only \<open>SESSDATA\<close> is read by
  the program itself, for a warning; the platform client uses them. \<open>if args.season_id\<close> is
  true for an identifier that is given and not zero.
\<close>

definition main :: "env \<Rightarrow> args \<Rightarrow> world \<Rightarrow> unit result" where
  "main en ar w =
     (let w1 = os_makedirs CACHE_DIR w;
          w2 = cleanup_cache en CACHE_DIR CACHE_MAX_AGE_DAYS w1;
          w3 = (if os_getenv_SESSDATA en = None \<or> os_getenv_SESSDATA en = Some []
                then logging WARNING CredentialNotFound w2 else w2)
      in if arg_season_id ar \<noteq> None \<and> arg_season_id ar \<noteq> Some 0
         then process_season en ar w3
         else process_bvid en ar w3)"

section \<open>Observations, predicates and examples\<close>

subsection \<open>What a run did\<close>

text \<open>The events a run has added to the trace: the trace of the later world without the
  trace of the earlier one.\<close>

definition new_events :: "world \<Rightarrow> world \<Rightarrow> event list" where
  "new_events w w' = drop (length (trace w)) (trace w')"

text \<open>The paths written, the collaborators called, the seconds slept, in order.\<close>

definition writes :: "event list \<Rightarrow> pystr list" where
  "writes tr = concat (map (\<lambda>e. case e of FileWrite p b \<Rightarrow> [p] | _ \<Rightarrow> []) tr)"

definition calls :: "event list \<Rightarrow> call list" where
  "calls tr = concat (map (\<lambda>e. case e of Call c \<Rightarrow> [c] | _ \<Rightarrow> []) tr)"

fun sleep_of :: "event \<Rightarrow> nat list" where
  "sleep_of (Sleep n) = [n]"
| "sleep_of e = []"

definition sleeps :: "event list \<Rightarrow> nat list" where
  "sleeps tr = concat (map sleep_of tr)"

text \<open>An attempt of \<open>process_page\<close> starts with the line "Processing P...", and an attempt that
  failed with a network error logs the warning "Network error on P...": the attempts and
  the network failures of a run are counted by these lines.\<close>

fun is_attempt_start :: "event \<Rightarrow> bool" where
  "is_attempt_start (Log l (Processing n t)) = True"
| "is_attempt_start e = False"

definition attempts :: "event list \<Rightarrow> nat" where
  "attempts tr = length (filter is_attempt_start tr)"

fun is_network_failure :: "event \<Rightarrow> bool" where
  "is_network_failure (Log l (NetworkError n a m)) = True"
| "is_network_failure e = False"

definition network_failures :: "event list \<Rightarrow> nat" where
  "network_failures tr = length (filter is_network_failure tr)"

text \<open>The calls of the summarizer, and the lines logged as errors.\<close>

fun summarizer_call_of :: "event \<Rightarrow> call list" where
  "summarizer_call_of (Call (Acompletion p u)) = [Acompletion p u]"
| "summarizer_call_of e = []"

definition summarizer_calls :: "event list \<Rightarrow> call list" where
  "summarizer_calls tr = concat (map summarizer_call_of tr)"

fun is_error_log :: "event \<Rightarrow> bool" where
  "is_error_log (Log ERROR m) = True"
| "is_error_log e = False"

definition error_logs :: "event list \<Rightarrow> event list" where
  "error_logs tr = filter is_error_log tr"

text \<open>The writes that replaced a file, the removals, and the starts of a cache eviction.\<close>

fun is_overwrite :: "event \<Rightarrow> bool" where
  "is_overwrite (FileWrite p b) = b"
| "is_overwrite e = False"

definition overwrites :: "event list \<Rightarrow> event list" where
  "overwrites tr = filter is_overwrite tr"

fun is_removal :: "event \<Rightarrow> bool" where
  "is_removal (FileRemove p) = True"
| "is_removal e = False"

definition removals :: "event list \<Rightarrow> event list" where
  "removals tr = filter is_removal tr"

fun is_eviction_start :: "event \<Rightarrow> bool" where
  "is_eviction_start (Log l (CleaningUp d n)) = True"
| "is_eviction_start e = False"

definition eviction_starts :: "event list \<Rightarrow> event list" where
  "eviction_starts tr = filter is_eviction_start tr"

text \<open>The save numbers under which pages were processed or skipped.\<close>

fun save_number_of :: "event \<Rightarrow> int list" where
  "save_number_of (Log l (Processing n t)) = [n]"
| "save_number_of (Log l (Skipping n t)) = [n]"
| "save_number_of e = []"

definition save_numbers :: "event list \<Rightarrow> int list" where
  "save_numbers tr = concat (map save_number_of tr)"

subsection \<open>Predicates of the proofs\<close>

text \<open>\<open>extends P w w'\<close>: the later trace is the earlier one followed by events that satisfy \<open>P\<close>.
  \<open>preserved w w'\<close>: every file of the earlier world is in the later one with the same
  content, and so is every directory.\<close>

definition extends :: "(event \<Rightarrow> bool) \<Rightarrow> world \<Rightarrow> world \<Rightarrow> bool" where
  "extends P w w' = (\<exists>new. trace w' = trace w @ new \<and> (\<forall>e\<in>set new. P e))"

definition preserved :: "world \<Rightarrow> world \<Rightarrow> bool" where
  "preserved w w' = ((\<forall>q. files w q \<noteq> None \<longrightarrow> files w' q = files w q) \<and> dirs w \<subseteq> dirs w')"

text \<open>The events of a resolution for the cache file \<open>p\<close>, and the events of one attempt after
  its first line, for the cache file \<open>cp\<close> and the output path \<open>op\<close>.\<close>

fun resolver_event :: "pystr \<Rightarrow> event \<Rightarrow> bool" where
  "resolver_event p (Log l m) =
     (l = INFO \<and> (case m of LoadingFromCache n \<Rightarrow> True | NoCacheFound n \<Rightarrow> True
        | FoundOfficial n \<Rightarrow> True | NoOfficial n \<Rightarrow> True | SavingToCache n \<Rightarrow> True | _ \<Rightarrow> False))"
| "resolver_event p (Call c) =
     (case c of GetCid b i \<Rightarrow> True | GetSubtitleMeta b i \<Rightarrow> True | SessionGet u \<Rightarrow> True
        | DownloadAudio b i \<Rightarrow> True | Transcribe a d m \<Rightarrow> True | _ \<Rightarrow> False)"
| "resolver_event p (FileWrite q b) = (q = p \<and> \<not> b)"
| "resolver_event p (Sleep n) = False"
| "resolver_event p (FileRemove q) = False"
| "resolver_event p (MakeDirs q) = False"

fun attempt_event :: "pystr \<Rightarrow> pystr \<Rightarrow> event \<Rightarrow> bool" where
  "attempt_event cp op (Log l m) =
     (resolver_event cp (Log l m) \<or>
      (case m of SubtitleEmpty n \<Rightarrow> l = WARNING | SummaryFailed n \<Rightarrow> l = ERROR
         | SuccessfullySaved q \<Rightarrow> l = INFO \<and> q = op | _ \<Rightarrow> False))"
| "attempt_event cp op (Call c) =
     (resolver_event cp (Call c) \<or> (case c of Acompletion p u \<Rightarrow> True | _ \<Rightarrow> False))"
| "attempt_event cp op (FileWrite q b) = (q = cp \<or> q = op)"
| "attempt_event cp op (MakeDirs q) = True"
| "attempt_event cp op (Sleep n) = False"
| "attempt_event cp op (FileRemove q) = False"

text \<open>An event that harms no file: no replacing write, no removal, no eviction. A run is safe
  when it preserves the files, adds only such events, and writes only where no file was
  when it started.\<close>

fun benign :: "event \<Rightarrow> bool" where
  "benign (FileWrite q b) = (\<not> b)"
| "benign (FileRemove q) = False"
| "benign (Log l m) = (case m of CleaningUp d n \<Rightarrow> False | _ \<Rightarrow> True)"
| "benign (Sleep n) = True"
| "benign (Call c) = True"
| "benign (MakeDirs q) = True"

definition safe_run :: "world \<Rightarrow> world \<Rightarrow> bool" where
  "safe_run w w' =
     (preserved w w' \<and> extends benign w w' \<and> (\<forall>p\<in>set (writes (new_events w w')). files w p = None))"

text \<open>The path \<open>save\<close> returns (it depends neither on the content nor on the world), and the
  path \<open>read_prompt\<close> opens.\<close>

definition save_path :: "env \<Rightarrow> pystr \<Rightarrow> int \<Rightarrow> pystr \<Rightarrow> pystr" where
  "save_path en output_dir n title =
     fst (save en n title [] output_dir \<lparr>files = Map.empty, dirs = {}, trace = []\<rparr>)"

definition prompt_path :: "args \<Rightarrow> pystr" where
  "prompt_path ar = ustr ''prompt/'' @ arg_prompt ar @ ustr ''.md''"

text \<open>What \<open>cleanup_cache\<close> does with one path: it is evicted when its time is read and old and
  the removal succeeds; the eviction fails when the time cannot be read, or it is old and
  the removal fails. \<open>cleanup_one\<close> is one round of the loop, without the count.\<close>

definition evictable :: "env \<Rightarrow> real \<Rightarrow> pystr \<Rightarrow> bool" where
  "evictable en cutoff p =
     (case os_path_getmtime en p of None \<Rightarrow> False
      | Some mtime \<Rightarrow> mtime < cutoff \<and> \<not> os_remove_fails en p)"

definition eviction_fails :: "env \<Rightarrow> real \<Rightarrow> pystr \<Rightarrow> bool" where
  "eviction_fails en cutoff p =
     (case os_path_getmtime en p of None \<Rightarrow> True
      | Some mtime \<Rightarrow> mtime < cutoff \<and> os_remove_fails en p)"

definition cleanup_one :: "env \<Rightarrow> pystr \<Rightarrow> real \<Rightarrow> pystr \<Rightarrow> world \<Rightarrow> world" where
  "cleanup_one en d cutoff f w =
     (if files w (os_path_join d f) = None then w
      else if eviction_fails en cutoff (os_path_join d f)
      then logging ERROR (ErrorRemoving (os_path_join d f)) w
      else if evictable en cutoff (os_path_join d f) then os_remove (os_path_join d f) w
      else w)"

text \<open>The warning of \<open>main\<close> about the credential.\<close>

definition credential_check :: "env \<Rightarrow> world \<Rightarrow> world" where
  "credential_check en w =
     (if os_getenv_SESSDATA en = None \<or> os_getenv_SESSDATA en = Some []
      then logging WARNING CredentialNotFound w else w)"

subsection \<open>The season loop in the words of the specification\<close>

text \<open>The specification describes the season loop as an iteration over pairs of a save number
  and a page, with the checkpoint consulted before dispatch. \<open>numbered\<close> is the iterator,
  \<open>season_step\<close> what is done for one pair; the loop of the source is compared with them.\<close>

fun numbered :: "int \<Rightarrow> 'a list \<Rightarrow> (int \<times> 'a) list" where
  "numbered c [] = []"
| "numbered c (x # xs) = (c, x) # numbered (c + 1) xs"

definition season_step :: "env \<Rightarrow> args \<Rightarrow> pystr \<Rightarrow> pystr \<Rightarrow> world \<Rightarrow> int \<times> page_details \<Rightarrow> world" where
  "season_step en ar bvid prompt_text w np =
     (if os_path_exists w (fst (save en (fst np) (part (snd np)) [] (arg_output_dir ar) w))
      then logging INFO (Skipping (fst np) (part (snd np))) w
      else process_page en bvid (snd np) prompt_text ar (Some (fst np)) w)"

subsection \<open>Worlds and collaborators of the examples\<close>

text \<open>The empty world; collaborators that all raise the same exception; a platform that has
  official subtitles with the given lines and a completion service with the given answer;
  the same with a page list; a season of three videos, the second of which cannot be
  listed; a cache directory with four files.\<close>

definition world0 :: world where
  "world0 = \<lparr>files = Map.empty, dirs = {}, trace = []\<rparr>"

definition env_raising :: "pyexc \<Rightarrow> env" where
  "env_raising e =
     \<lparr>unicode_alnum = (\<lambda>c. False),
      series_get_videos = (\<lambda>h i. Inl e),
      v_get_pages = (\<lambda>h b. Inl e),
      v_get_cid = (\<lambda>h b i. Inl e),
      v_get_subtitle = (\<lambda>h b i. Inl e),
      session_get = (\<lambda>h u. Inl e),
      download_audio = (\<lambda>h b i. Inl e),
      model_transcribe = (\<lambda>h a d m. Inl e),
      litellm_acompletion = (\<lambda>h p u. Inl e),
      os_listdir = (\<lambda>d. []),
      os_path_getmtime = (\<lambda>p. None),
      os_remove_fails = (\<lambda>p. False),
      time_time = 0,
      os_getenv_SESSDATA = None\<rparr>"

definition env_official :: "pystr list \<Rightarrow> completion \<Rightarrow> env" where
  "env_official body answer =
     (env_raising OtherException)
       \<lparr>v_get_cid := (\<lambda>h b i. Inr 7),
        v_get_subtitle := (\<lambda>h b i. Inr (Some [ustr ''//host/track.json''])),
        session_get := (\<lambda>h u. Inr \<lparr>status = 200, json_body = Inr body\<rparr>),
        litellm_acompletion := (\<lambda>h p u. Inr answer)\<rparr>"

definition env_video :: "page_details list \<Rightarrow> pystr list \<Rightarrow> completion \<Rightarrow> env" where
  "env_video pages body answer = (env_official body answer)\<lparr>v_get_pages := (\<lambda>h b. Inr pages)\<rparr>"

definition env_season :: env where
  "env_season =
     (env_raising OtherException)
       \<lparr>series_get_videos := (\<lambda>h i. Inr [ustr ''BVa'', ustr ''BVx'', ustr ''BVb'']),
        v_get_pages := (\<lambda>h b.
          if b = ustr ''BVa'' then Inr [\<lparr>page = 1, part = ustr ''a''\<rparr>, \<lparr>page = 2, part = ustr ''b''\<rparr>]
          else if b = ustr ''BVb''
          then Inr [\<lparr>page = 1, part = ustr ''c''\<rparr>, \<lparr>page = 2, part = ustr ''d''\<rparr>,
                    \<lparr>page = 3, part = ustr ''e''\<rparr>]
          else Inl ClientError)\<rparr>"

definition env_cache :: env where
  "env_cache =
     (env_raising OtherException)
       \<lparr>os_listdir := (\<lambda>d. [ustr ''old.txt'', ustr ''new.txt'', ustr ''locked.txt'', ustr ''nostat.txt'']),
        os_path_getmtime := (\<lambda>p.
          if p = ustr ''.cache/subtitles/old.txt'' then Some 0
          else if p = ustr ''.cache/subtitles/new.txt'' then Some 3000000
          else if p = ustr ''.cache/subtitles/locked.txt'' then Some 0
          else None),
        os_remove_fails := (\<lambda>p. p = ustr ''.cache/subtitles/locked.txt''),
        time_time := 3000000\<rparr>"

text \<open>A page, the arguments, a well-formed answer, and the worlds the examples start from
  or arrive at.\<close>

definition page1 :: page_details where
  "page1 = \<lparr>page = 1, part = ustr ''Ep:1 / Intro? ''\<rparr>"

definition args0 :: args where
  "args0 = \<lparr>arg_bvid = ustr ''BV1xx'', arg_season_id = None, arg_start_page = 1,
     arg_end_page = None, arg_prompt = ustr ''brief'', arg_output_dir = ustr ''result'',
     arg_device = ustr ''cpu'', arg_model_size = ustr ''small''\<rparr>"

definition answer1 :: completion where
  "answer1 = ModelResponse (ChoiceList [Choices (Message (StrContent (ustr ''sum'')))])"

definition world_prompt :: world where
  "world_prompt = world0\<lparr>files := [ustr ''prompt/brief.md'' \<mapsto> ustr ''p'']\<rparr>"

definition world_done :: world where
  "world_done =
     \<lparr>files = [ustr ''prompt/brief.md'' \<mapsto> ustr ''p'',
               ustr ''.cache/subtitles/BV1xx_1.txt'' \<mapsto> ustr ''hi'',
               ustr ''result/P001_Ep1  Intro.md'' \<mapsto> ustr ''sum''],
      dirs = {ustr ''result''},
      trace = [Call (GetPages (ustr ''BV1xx'')), Log INFO (FoundPages 1 (ustr ''BV1xx'')),
        Log INFO (Processing 1 (ustr ''Ep:1 / Intro? '')), Log INFO (NoCacheFound 1),
        Call (GetCid (ustr ''BV1xx'') 0), Call (GetSubtitleMeta (ustr ''BV1xx'') 7),
        Log INFO (FoundOfficial 1), Call (SessionGet (ustr ''https://host/track.json'')),
        Log INFO (SavingToCache 1), FileWrite (ustr ''.cache/subtitles/BV1xx_1.txt'') False,
        Call (Acompletion (ustr ''p'') (summary_request @ ustr ''hi'')),
        MakeDirs (ustr ''result''), FileWrite (ustr ''result/P001_Ep1  Intro.md'') False,
        Log INFO (SuccessfullySaved (ustr ''result/P001_Ep1  Intro.md''))]\<rparr>"

definition world_cache :: world where
  "world_cache =
     world0\<lparr>files := [ustr ''.cache/subtitles/old.txt'' \<mapsto> ustr ''a'',
                       ustr ''.cache/subtitles/new.txt'' \<mapsto> ustr ''b'',
                       ustr ''.cache/subtitles/locked.txt'' \<mapsto> ustr ''c'',
                       ustr ''.cache/subtitles/nostat.txt'' \<mapsto> ustr ''d'']\<rparr>"

section \<open>Basic facts about the world\<close>

lemma trace_emit [simp]: "trace (emit e w) = trace w @ [e]" by (simp add: emit_def)

lemma files_emit [simp]: "files (emit e w) = files w" by (simp add: emit_def)

lemma dirs_emit [simp]: "dirs (emit e w) = dirs w" by (simp add: emit_def)

lemma trace_logging [simp]: "trace (logging l m w) = trace w @ [Log l m]" by (simp add: logging_def)

lemma files_logging [simp]: "files (logging l m w) = files w" by (simp add: logging_def)

lemma dirs_logging [simp]: "dirs (logging l m w) = dirs w" by (simp add: logging_def)

lemma trace_sleep [simp]: "trace (asyncio_sleep n w) = trace w @ [Sleep n]" by (simp add: asyncio_sleep_def)

lemma files_sleep [simp]: "files (asyncio_sleep n w) = files w" by (simp add: asyncio_sleep_def)

lemma dirs_sleep [simp]: "dirs (asyncio_sleep n w) = dirs w" by (simp add: asyncio_sleep_def)

lemma trace_makedirs [simp]: "trace (os_makedirs p w) = trace w @ [MakeDirs p]" by (simp add: os_makedirs_def)

lemma files_makedirs [simp]: "files (os_makedirs p w) = files w" by (simp add: os_makedirs_def)

lemma dirs_makedirs [simp]: "dirs (os_makedirs p w) = insert p (dirs w)" by (simp add: os_makedirs_def)

lemma trace_write_file [simp]: "trace (write_file p c w) = trace w @ [FileWrite p (files w p \<noteq> None)]"
  by (simp add: write_file_def)

lemma files_write_file [simp]: "files (write_file p c w) = (files w)(p \<mapsto> c)" by (simp add: write_file_def)

lemma dirs_write_file [simp]: "dirs (write_file p c w) = dirs w" by (simp add: write_file_def)

lemma trace_remove [simp]: "trace (os_remove p w) = trace w @ [FileRemove p]" by (simp add: os_remove_def)

lemma files_remove [simp]: "files (os_remove p w) = (files w)(p := None)" by (simp add: os_remove_def)

lemma dirs_remove [simp]: "dirs (os_remove p w) = dirs w" by (simp add: os_remove_def)

lemma await_simp [simp]: "await c f w = (f (trace w), emit (Call c) w)" by (simp add: await_def)

lemma bind_exc_Inl [simp]: "bind_exc (Inl e, w) f = (Inl e, w)" by (simp add: bind_exc_def)

lemma bind_exc_Inr [simp]: "bind_exc (Inr x, w) f = f x w" by (simp add: bind_exc_def)

lemma os_path_exists_logging [simp]: "os_path_exists (logging l m w) p = os_path_exists w p"
  by (simp add: os_path_exists_def)

lemma extends_refl [simp]: "extends P w w" by (simp add: extends_def)

lemma extends_mono: "extends P w w' \<Longrightarrow> (\<And>e. P e \<Longrightarrow> Q e) \<Longrightarrow> extends Q w w'"
  by (auto simp: extends_def)

section \<open>What a resolution and an attempt may do\<close>

lemmas resolver_defs = get_subtitle_def official_subtitles_def generate_subtitles_def
  os_path_exists_def Let_def

lemma get_subtitle_extends:
  "get_subtitle en bvid n device ms w = (r, w') \<Longrightarrow>
   extends (resolver_event (cache_file_path bvid n)) w w'"
  by (auto simp: resolver_defs extends_def bind_exc_def
      split: if_splits option.splits sum.splits list.splits prod.splits)

lemma get_subtitle_files_other:
  "get_subtitle en bvid n device ms w = (r, w') \<Longrightarrow> q \<noteq> cache_file_path bvid n \<Longrightarrow>
   files w' q = files w q"
  by (auto simp: resolver_defs bind_exc_def
      split: if_splits option.splits sum.splits list.splits prod.splits)

lemma strip_Nil [simp]: "strip [] = []" by (simp add: strip_def rstrip_def lstrip_def)

lemma fst_save: "fst (save en n title c d w) = save_path en d n title"
  by (simp add: save_def save_path_def Let_def)

lemma snd_save_trace: "trace (snd (save en n title c d w)) =
   trace w @ [MakeDirs d, FileWrite (save_path en d n title) (files w (save_path en d n title) \<noteq> None),
     Log INFO (SuccessfullySaved (save_path en d n title))]"
  by (simp add: save_def save_path_def Let_def)

lemma snd_save_files: "files (snd (save en n title c d w)) = (files w)(save_path en d n title \<mapsto> c)"
  by (simp add: save_def save_path_def Let_def)

lemma snd_save_dirs: "dirs (snd (save en n title c d w)) = insert d (dirs w)"
  by (simp add: save_def save_path_def Let_def)

lemma last_os_path_join: "b \<noteq> [] \<Longrightarrow> last (os_path_join a b) = last b"
  by (simp add: os_path_join_def)

lemma cache_neq_save_path: "cache_file_path bvid n \<noteq> save_path en d k title"
proof
  assume "cache_file_path bvid n = save_path en d k title"
  then have "last (cache_file_path bvid n) = last (save_path en d k title)" by simp
  then show False
    by (simp add: cache_file_path_def save_path_def save_def Let_def last_os_path_join ustr_def)
qed

lemma resolver_attempt_event: "resolver_event cp e \<Longrightarrow> attempt_event cp op e"
  by (cases e) auto

lemma summarize_cases:
  "summarize en text prompt w = (r, w') \<Longrightarrow>
     w' = emit (Call (Acompletion prompt (summary_request @ text))) w"
  by (auto simp: summarize_def bind_exc_def split: sum.splits)

lemma extends_Cons:
  "extends P (emit e w) w' \<Longrightarrow> \<exists>new. trace w' = trace w @ e # new \<and> (\<forall>x\<in>set new. P x)"
  by (auto simp: extends_def)

lemma attempt_page_trace:
  assumes "attempt_page en bvid pd prompt_text ar spn w = (r, w')"
  shows "\<exists>new. trace w' = trace w @ Log INFO (Processing spn (part pd)) # new \<and>
     (\<forall>e\<in>set new. attempt_event (cache_file_path bvid (page pd))
         (save_path en (arg_output_dir ar) spn (part pd)) e)"
proof -
  let ?cp = "cache_file_path bvid (page pd)"
  let ?op = "save_path en (arg_output_dir ar) spn (part pd)"
  let ?w1 = "logging INFO (Processing spn (part pd)) w"
  obtain r2 w2 where g: "get_subtitle en bvid (page pd) (arg_device ar) (arg_model_size ar) ?w1 = (r2, w2)"
    by (cases "get_subtitle en bvid (page pd) (arg_device ar) (arg_model_size ar) ?w1") auto
  from get_subtitle_extends[OF g] have e2: "extends (attempt_event ?cp ?op) ?w1 w2"
    by (rule extends_mono) (rule resolver_attempt_event)
  have "extends (attempt_event ?cp ?op) ?w1 w'"
    using assms(1) g e2
    by (auto simp: attempt_page_def Let_def bind_exc_def logging_def snd_save_trace fst_save
        extends_def dest!: summarize_cases
        split: sum.splits option.splits if_splits prod.splits)
  then show ?thesis
    unfolding logging_def by (rule extends_Cons)
qed

lemma preserved_refl [simp]: "preserved w w" by (simp add: preserved_def)

lemma preserved_trans: "preserved w w1 \<Longrightarrow> preserved w1 w2 \<Longrightarrow> preserved w w2"
  by (auto simp: preserved_def)

lemma preserved_emit [simp]: "preserved w (emit e w)" by (simp add: preserved_def)

lemma preserved_logging [simp]: "preserved w (logging l m w)" by (simp add: preserved_def)

lemma preserved_sleep [simp]: "preserved w (asyncio_sleep n w)" by (simp add: preserved_def)

lemma resolver_benign: "resolver_event cp e \<Longrightarrow> benign e"
  by (cases e) (auto split: logmsg.splits)

lemma get_subtitle_preserved:
  "get_subtitle en bvid n device ms w = (r, w') \<Longrightarrow> preserved w w'"
  by (auto simp: resolver_defs bind_exc_def preserved_def
      split: if_splits option.splits sum.splits list.splits prod.splits)

lemma attempt_page_cases:
  assumes a: "attempt_page en bvid pd prompt_text ar spn w = (r, w')"
    and g: "get_subtitle en bvid (page pd) (arg_device ar) (arg_model_size ar)
              (logging INFO (Processing spn (part pd)) w) = (r2, w2)"
  shows "(\<exists>e. r2 = Inl e \<and> r = Inl e \<and> w' = w2)
    \<or> ((r2 = Inr None \<or> (\<exists>t. r2 = Inr (Some t) \<and> strip t = [])) \<and> r = Inr () \<and>
        w' = logging WARNING (SubtitleEmpty spn) w2)
    \<or> (\<exists>t. r2 = Inr (Some t) \<and> strip t \<noteq> [] \<and>
          ((\<exists>e. r = Inl e \<and> w' = emit (Call (Acompletion prompt_text (summary_request @ t))) w2)
         \<or> (r = Inr () \<and> w' = logging ERROR (SummaryFailed spn)
                (emit (Call (Acompletion prompt_text (summary_request @ t))) w2))
         \<or> (\<exists>s. r = Inr () \<and> w' = snd (save en spn (part pd) s (arg_output_dir ar)
                (emit (Call (Acompletion prompt_text (summary_request @ t))) w2)))))"
  using a g
  by (auto simp: attempt_page_def Let_def bind_exc_def summarize_def
      split: sum.splits option.splits if_splits prod.splits)


lemma retry_loop_invariant:
  assumes step: "\<And>w r w1. I w \<Longrightarrow> body w = (r, w1) \<Longrightarrow> R w w1 \<and> (\<forall>e. r = Inl e \<longrightarrow> I w1)"
    and refl: "\<And>w. R w w"
    and trans: "\<And>w w1 w2. R w w1 \<Longrightarrow> R w1 w2 \<Longrightarrow> R w w2"
    and emitR: "\<And>w e. benign e \<Longrightarrow> writes [e] = [] \<Longrightarrow> R w (emit e w)"
    and emitI: "\<And>w e. I w \<Longrightarrow> I (emit e w)"
  shows "I w \<Longrightarrow> R w (retry_loop body spn m as w)"
proof (induction as arbitrary: w)
  case Nil
  then show ?case by (simp add: refl)
next
  case (Cons a as)
  obtain r w1 where b: "body w = (r, w1)" by (cases "body w") auto
  from step[OF Cons.prems b] have R1: "R w w1" and I1: "\<forall>e. r = Inl e \<longrightarrow> I w1" by auto
  have logR: "\<And>w0 w l m. R w0 w \<Longrightarrow> benign (Log l m) \<Longrightarrow> R w0 (logging l m w)"
  proof -
    fix w0 w l m assume "R w0 w" "benign (Log l m)"
    moreover have "writes [Log l m] = []" by (simp add: writes_def)
    ultimately show "R w0 (logging l m w)" unfolding logging_def using trans emitR by blast
  qed
  have sleepR: "\<And>w0 w n. R w0 w \<Longrightarrow> R w0 (asyncio_sleep n w)"
  proof -
    fix w0 w n assume "R w0 w"
    moreover have "writes [Sleep n] = []" "benign (Sleep n)" by (simp_all add: writes_def)
    ultimately show "R w0 (asyncio_sleep n w)" unfolding asyncio_sleep_def using trans emitR by blast
  qed
  show ?case
  proof (cases r)
    case (Inr u)
    with b R1 show ?thesis by simp
  next
    case (Inl e)
    with I1 have Iw1: "I w1" by simp
    show ?thesis
    proof (cases "is_network_error e")
      case False
      with b Inl have "retry_loop body spn m (a # as) w = logging ERROR (UnexpectedError spn) w1"
        by simp
      moreover have "R w (logging ERROR (UnexpectedError spn) w1)" using logR[OF R1] by simp
      ultimately show ?thesis by simp
    next
      case True
      let ?w2 = "logging WARNING (NetworkError spn (a + 1) m) w1"
      have R2: "R w ?w2" using logR[OF R1] by simp
      have I2: "I ?w2" unfolding logging_def using emitI[OF Iw1] by simp
      show ?thesis
      proof (cases "a + 1 = m")
        case True
        let ?w3 = "logging ERROR (FailedAfterRetries spn m) ?w2"
        have "R w ?w3" using logR[OF R2] by simp
        moreover have "I ?w3" using emitI[OF I2] by (simp add: logging_def[of ERROR])
        ultimately have "R w (retry_loop body spn m as ?w3)" using Cons.IH trans by blast
        with b Inl \<open>is_network_error e\<close> True show ?thesis by (simp add: Let_def)
      next
        case False
        let ?w3 = "asyncio_sleep (5 * (a + 1)) ?w2"
        have "R w ?w3" using sleepR[OF R2] by simp
        moreover have "I ?w3" using emitI[OF I2] by (simp add: asyncio_sleep_def)
        ultimately have "R w (retry_loop body spn m as ?w3)" using Cons.IH trans by blast
        with b Inl \<open>is_network_error e\<close> False show ?thesis by (simp add: Let_def)
      qed
    qed
  qed
qed

section \<open>The cache: claims C4 and C7\<close>

lemma extends_new_events:
  "extends P w w' \<Longrightarrow> trace w' = trace w @ new_events w w' \<and> (\<forall>e\<in>set (new_events w w'). P e)"
  by (auto simp: extends_def new_events_def)





section \<open>The retry loop: claims C1, C3 and C5\<close>

lemma bvid_pages_step:
  "bvid_pages en ar prompt_text (pd # rest) w =
     (if os_path_exists w (save_path en (arg_output_dir ar) (page pd) (part pd))
      then bvid_pages en ar prompt_text rest (logging INFO (Skipping (page pd) (part pd)) w)
      else bvid_pages en ar prompt_text rest
             (process_page en (arg_bvid ar) pd prompt_text ar None w))"
  by (simp add: Let_def save_path_def save_def)

lemma season_pages_step:
  "season_pages en ar bvid prompt_text counter (pd # rest) w =
     (if os_path_exists w (save_path en (arg_output_dir ar) counter (part pd))
      then season_pages en ar bvid prompt_text (counter + 1) rest
             (logging INFO (Skipping counter (part pd)) w)
      else season_pages en ar bvid prompt_text (counter + 1) rest
             (process_page en bvid pd prompt_text ar (Some counter) w))"
  by (simp add: Let_def save_path_def save_def)

lemma attempt_event_quiet1:
  "attempt_event cp op e \<Longrightarrow> sleep_of e = [] \<and> \<not> is_attempt_start e \<and> \<not> is_network_failure e"
proof (cases e)
  case (Log l m)
  assume "attempt_event cp op e"
  with Log show ?thesis by (cases m) auto
qed auto

lemma attempt_event_quiet:
  "\<forall>e\<in>set new. attempt_event cp op e \<Longrightarrow>
     sleeps new = [] \<and> attempts new = 0 \<and> network_failures new = 0"
  by (induction new) (auto simp: sleeps_def attempts_def network_failures_def dest: attempt_event_quiet1)

lemma process_page_unfold:
  "process_page en bvid pd prompt_text ar so w =
     retry_loop (attempt_page en bvid pd prompt_text ar (case so of Some n \<Rightarrow> n | None \<Rightarrow> page pd))
       (case so of Some n \<Rightarrow> n | None \<Rightarrow> page pd) 3 [0, 1, 2] w"
proof -
  have "[0..<3] = [0, 1, 2::nat]" by (simp add: upt_rec)
  then show ?thesis by (simp add: process_page_def Let_def)
qed

lemma retry_loop_Inr:
  "body w = (Inr u, w1) \<Longrightarrow> retry_loop body spn m (a # as) w = w1"
  by simp

lemma retry_loop_other:
  "body w = (Inl e, w1) \<Longrightarrow> \<not> is_network_error e \<Longrightarrow>
     retry_loop body spn m (a # as) w = logging ERROR (UnexpectedError spn) w1"
  by simp

lemma retry_loop_retry:
  "body w = (Inl e, w1) \<Longrightarrow> is_network_error e \<Longrightarrow> a + 1 \<noteq> m \<Longrightarrow>
     retry_loop body spn m (a # as) w =
       retry_loop body spn m as
         (asyncio_sleep (5 * (a + 1)) (logging WARNING (NetworkError spn (a + 1) m) w1))"
  by (simp add: Let_def)

lemma retry_loop_last:
  "body w = (Inl e, w1) \<Longrightarrow> is_network_error e \<Longrightarrow> a + 1 = m \<Longrightarrow>
     retry_loop body spn m (a # as) w =
       retry_loop body spn m as
         (logging ERROR (FailedAfterRetries spn m) (logging WARNING (NetworkError spn (a + 1) m) w1))"
  by (simp add: Let_def)

lemma projections_append:
  "sleeps (xs @ ys) = sleeps xs @ sleeps ys"
  "attempts (xs @ ys) = attempts xs + attempts ys"
  "network_failures (xs @ ys) = network_failures xs + network_failures ys"
  by (simp_all add: sleeps_def attempts_def network_failures_def)

lemma projections_Cons:
  "sleeps (e # es) = sleep_of e @ sleeps es"
  "attempts (e # es) = (if is_attempt_start e then 1 else 0) + attempts es"
  "network_failures (e # es) = (if is_network_failure e then 1 else 0) + network_failures es"
  by (simp_all add: sleeps_def attempts_def network_failures_def)

lemma projections_Nil:
  "sleeps [] = []" "attempts [] = 0" "network_failures [] = 0"
  by (simp_all add: sleeps_def attempts_def network_failures_def)

lemmas projections = projections_append projections_Cons projections_Nil

lemma retry_loop_counts:
  assumes A: "\<And>w r w1. body w = (r, w1) \<Longrightarrow>
      \<exists>new. trace w1 = trace w @ Log INFO (Processing spn title) # new \<and>
        sleeps new = [] \<and> attempts new = 0 \<and> network_failures new = 0"
  shows "attempts (new_events w (retry_loop body spn 3 [0, 1, 2] w))
           = min 3 (network_failures (new_events w (retry_loop body spn 3 [0, 1, 2] w)) + 1) \<and>
         sleeps (new_events w (retry_loop body spn 3 [0, 1, 2] w))
           = take (network_failures (new_events w (retry_loop body spn 3 [0, 1, 2] w))) [5, 10] \<and>
         (network_failures (new_events w (retry_loop body spn 3 [0, 1, 2] w)) = 3 \<longrightarrow>
            last (trace (retry_loop body spn 3 [0, 1, 2] w)) = Log ERROR (FailedAfterRetries spn 3))"
    (is "?goal (retry_loop body spn 3 [0, 1, 2] w)")
proof -
  obtain r1 w1 where b1: "body w = (r1, w1)" by (cases "body w") auto
  from A[OF b1] obtain n1 where t1: "trace w1 = trace w @ Log INFO (Processing spn title) # n1"
    "sleeps n1 = []" "attempts n1 = 0" "network_failures n1 = 0" by auto
  let ?w2 = "asyncio_sleep (5 * (0 + 1)) (logging WARNING (NetworkError spn (0 + 1) 3) w1)"
  obtain r2 w3 where b2: "body ?w2 = (r2, w3)" by (cases "body ?w2") auto
  from A[OF b2] obtain n2 where t2: "trace w3 = trace ?w2 @ Log INFO (Processing spn title) # n2"
    "sleeps n2 = []" "attempts n2 = 0" "network_failures n2 = 0" by auto
  let ?w4 = "asyncio_sleep (5 * (1 + 1)) (logging WARNING (NetworkError spn (1 + 1) 3) w3)"
  obtain r3 w5 where b3: "body ?w4 = (r3, w5)" by (cases "body ?w4") auto
  from A[OF b3] obtain n3 where t3: "trace w5 = trace ?w4 @ Log INFO (Processing spn title) # n3"
    "sleeps n3 = []" "attempts n3 = 0" "network_failures n3 = 0" by auto
  note ev = new_events_def t1 t2 t3 projections
  consider (ok1) u where "r1 = Inr u"
    | (other1) e where "r1 = Inl e" "\<not> is_network_error e"
    | (net1) e where "r1 = Inl e" "is_network_error e"
    by (cases r1) auto
  then show ?thesis
  proof cases
    case ok1
    then have "retry_loop body spn 3 [0, 1, 2] w = w1" using b1 by simp
    then show ?thesis by (simp add: ev)
  next
    case other1
    then have "retry_loop body spn 3 [0, 1, 2] w = logging ERROR (UnexpectedError spn) w1"
      using b1 by simp
    then show ?thesis by (simp add: ev)
  next
    case net1
    then have s1: "retry_loop body spn 3 [0, 1, 2] w = retry_loop body spn 3 [1, 2] ?w2"
      using retry_loop_retry[of body w e w1 0 3 spn "[1, 2]"] b1 by simp
    consider (ok2) u where "r2 = Inr u"
      | (other2) e where "r2 = Inl e" "\<not> is_network_error e"
      | (net2) e where "r2 = Inl e" "is_network_error e"
      by (cases r2) auto
    then show ?thesis
    proof cases
      case ok2
      then have "retry_loop body spn 3 [1, 2] ?w2 = w3"
        using retry_loop_Inr[of body ?w2 u w3 spn 3 1 "[2]"] b2 by simp
      with s1 show ?thesis by (simp add: ev)
    next
      case other2
      then have "retry_loop body spn 3 [1, 2] ?w2 = logging ERROR (UnexpectedError spn) w3"
        using retry_loop_other[of body ?w2 e w3 spn 3 1 "[2]"] b2 by simp
      with s1 show ?thesis by (simp add: ev)
    next
      case net2
      then have s2: "retry_loop body spn 3 [1, 2] ?w2 = retry_loop body spn 3 [2] ?w4"
        using retry_loop_retry[of body ?w2 e w3 1 3 spn "[2]"] b2 by simp
      consider (ok3) u where "r3 = Inr u"
        | (other3) e where "r3 = Inl e" "\<not> is_network_error e"
        | (net3) e where "r3 = Inl e" "is_network_error e"
        by (cases r3) auto
      then show ?thesis
      proof cases
        case ok3
        then have "retry_loop body spn 3 [2] ?w4 = w5"
          using retry_loop_Inr[of body ?w4 u w5 spn 3 2 "[]"] b3 by simp
        with s1 s2 show ?thesis by (simp add: ev)
      next
        case other3
        then have "retry_loop body spn 3 [2] ?w4 = logging ERROR (UnexpectedError spn) w5"
          using retry_loop_other[of body ?w4 e w5 spn 3 2 "[]"] b3 by simp
        with s1 s2 show ?thesis by (simp add: ev)
      next
        case net3
        then have "retry_loop body spn 3 [2] ?w4 =
            logging ERROR (FailedAfterRetries spn 3) (logging WARNING (NetworkError spn (2 + 1) 3) w5)"
          using retry_loop_last[of body ?w4 e w5 2 3 spn "[]"] b3 by simp
        with s1 s2 show ?thesis by (simp add: ev)
      qed
    qed
  qed
qed

lemma attempt_page_quiet:
  assumes "attempt_page en bvid pd prompt_text ar spn w = (r, w1)"
  shows "\<exists>new. trace w1 = trace w @ Log INFO (Processing spn (part pd)) # new \<and>
        sleeps new = [] \<and> attempts new = 0 \<and> network_failures new = 0"
  using attempt_page_trace[OF assms] attempt_event_quiet by blast

text \<open>
  Claim C1. \<open>process_page\<close> makes at most three attempts: one more than the number of attempts
  that failed with a network error, and never more than three. Its sleeps are 5 and 10
  seconds, as many as there were network failures with attempts left. After a network
  failure of an attempt that is not the third the loop sleeps \<open>5 * (attempt + 1)\<close> seconds and
  goes on; after the third it logs an error and returns the world: nothing is raised, and
  the loops of the orchestrators go on with the next page.
\<close>

theorem C1_retry_backoff:
  fixes en bvid pd prompt_text ar so w
  defines "spn \<equiv> (case so of Some n \<Rightarrow> n | None \<Rightarrow> page pd)"
  defines "w' \<equiv> process_page en bvid pd prompt_text ar so w"
  shows "attempts (new_events w w') \<le> 3 \<and>
         attempts (new_events w w') = min 3 (network_failures (new_events w w') + 1) \<and>
         sleeps (new_events w w') = take (network_failures (new_events w w')) [5, 10] \<and>
         (network_failures (new_events w w') = 3 \<longrightarrow>
            last (trace w') = Log ERROR (FailedAfterRetries spn 3)) \<and>
         (\<forall>body a rest e w1. body w = (Inl e, w1) \<and> is_network_error e \<and> a + 1 \<noteq> 3 \<longrightarrow>
            retry_loop body spn 3 (a # rest) w =
              retry_loop body spn 3 rest
                (asyncio_sleep (5 * (a + 1)) (logging WARNING (NetworkError spn (a + 1) 3) w1))) \<and>
         (\<forall>body a e w1. body w = (Inl e, w1) \<and> is_network_error e \<and> a + 1 = 3 \<longrightarrow>
            retry_loop body spn 3 [a] w =
              logging ERROR (FailedAfterRetries spn 3)
                (logging WARNING (NetworkError spn 3 3) w1)) \<and>
         (\<forall>rest. \<not> os_path_exists w (fst (save en (page pd) (part pd) [] (arg_output_dir ar) w)) \<longrightarrow>
            bvid_pages en ar prompt_text (pd # rest) w =
              bvid_pages en ar prompt_text rest
                (process_page en (arg_bvid ar) pd prompt_text ar None w)) \<and>
         (\<forall>rest c. \<not> os_path_exists w (fst (save en c (part pd) [] (arg_output_dir ar) w)) \<longrightarrow>
            season_pages en ar bvid prompt_text c (pd # rest) w =
              season_pages en ar bvid prompt_text (c + 1) rest
                (process_page en bvid pd prompt_text ar (Some c) w))"
proof -
  have u: "w' = retry_loop (attempt_page en bvid pd prompt_text ar spn) spn 3 [0, 1, 2] w"
    unfolding w'_def spn_def by (rule process_page_unfold)
  have c: "attempts (new_events w w') = min 3 (network_failures (new_events w w') + 1) \<and>
         sleeps (new_events w w') = take (network_failures (new_events w w')) [5, 10] \<and>
         (network_failures (new_events w w') = 3 \<longrightarrow>
            last (trace w') = Log ERROR (FailedAfterRetries spn 3))"
    unfolding u by (rule retry_loop_counts) (rule attempt_page_quiet)
  then have "attempts (new_events w w') \<le> 3" by simp
  moreover have "\<forall>body a rest e w1. body w = (Inl e, w1) \<and> is_network_error e \<and> a + 1 \<noteq> 3 \<longrightarrow>
            retry_loop body spn 3 (a # rest) w =
              retry_loop body spn 3 rest
                (asyncio_sleep (5 * (a + 1)) (logging WARNING (NetworkError spn (a + 1) 3) w1))"
    by (simp add: Let_def)
  moreover have "\<forall>body a e w1. body w = (Inl e, w1) \<and> is_network_error e \<and> a + 1 = 3 \<longrightarrow>
            retry_loop body spn 3 [a] w =
              logging ERROR (FailedAfterRetries spn 3)
                (logging WARNING (NetworkError spn 3 3) w1)"
    by (simp add: Let_def)
  moreover have "\<forall>rest. \<not> os_path_exists w (fst (save en (page pd) (part pd) [] (arg_output_dir ar) w)) \<longrightarrow>
            bvid_pages en ar prompt_text (pd # rest) w =
              bvid_pages en ar prompt_text rest
                (process_page en (arg_bvid ar) pd prompt_text ar None w)"
    by (simp add: fst_save bvid_pages_step del: bvid_pages.simps)
  moreover have "\<forall>rest c. \<not> os_path_exists w (fst (save en c (part pd) [] (arg_output_dir ar) w)) \<longrightarrow>
            season_pages en ar bvid prompt_text c (pd # rest) w =
              season_pages en ar bvid prompt_text (c + 1) rest
                (process_page en bvid pd prompt_text ar (Some c) w)"
    by (simp add: fst_save season_pages_step del: season_pages.simps)
  ultimately show ?thesis using c by blast
qed

lemmas eval_defs = process_page_def attempt_page_def get_subtitle_def official_subtitles_def
  generate_subtitles_def summarize_def save_def cache_file_path_def CACHE_DIR_def os_path_join_def
  os_path_exists_def ustr_def str_int_def fmt_03d_def zfill_def digits.simps Let_def
  bind_exc_def world0_def env_raising_def env_official_def page1_def args0_def
  new_events_def sleeps_def attempts_def network_failures_def writes_def calls_def
  isalnum_def rstrip_def lstrip_def strip_def isspace_def upt_rec

lemma process_page_network_down:
  "trace (process_page (env_raising ClientError) (ustr ''BV1xx'') page1 (ustr ''p'') args0 None world0)
   = [Log INFO (Processing 1 (ustr ''Ep:1 / Intro? '')), Log INFO (NoCacheFound 1),
      Call (GetCid (ustr ''BV1xx'') 0), Log WARNING (NetworkError 1 1 3), Sleep 5,
      Log INFO (Processing 1 (ustr ''Ep:1 / Intro? '')), Log INFO (NoCacheFound 1),
      Call (GetCid (ustr ''BV1xx'') 0), Log WARNING (NetworkError 1 2 3), Sleep 10,
      Log INFO (Processing 1 (ustr ''Ep:1 / Intro? '')), Log INFO (NoCacheFound 1),
      Call (GetCid (ustr ''BV1xx'') 0), Log WARNING (NetworkError 1 3 3),
      Log ERROR (FailedAfterRetries 1 3)]"
  by (simp add: eval_defs)

theorem C1_retry_backoff_witness:
  "network_failures (new_events world0
      (process_page (env_raising ClientError) (ustr ''BV1xx'') page1 (ustr ''p'') args0 None world0)) = 3 \<and>
   attempts (new_events world0
      (process_page (env_raising ClientError) (ustr ''BV1xx'') page1 (ustr ''p'') args0 None world0)) = 3 \<and>
   sleeps (new_events world0
      (process_page (env_raising ClientError) (ustr ''BV1xx'') page1 (ustr ''p'') args0 None world0)) = [5, 10] \<and>
   last (trace (process_page (env_raising ClientError) (ustr ''BV1xx'') page1 (ustr ''p'') args0 None world0))
     = Log ERROR (FailedAfterRetries 1 3)"
proof -
  have n: "network_failures (new_events world0
      (process_page (env_raising ClientError) (ustr ''BV1xx'') page1 (ustr ''p'') args0 None world0)) = 3"
    by (simp add: new_events_def process_page_network_down network_failures_def) (simp add: world0_def)
  have p: "page page1 = 1" by (simp add: page1_def)
  show ?thesis
    using C1_retry_backoff [of world0 "env_raising ClientError" "ustr ''BV1xx''" page1 "ustr ''p''" args0 None]
    by (simp add: n p)
qed




lemma resolver_event_quiet1:
  "resolver_event cp e \<Longrightarrow> summarizer_call_of e = [] \<and> \<not> is_error_log e"
proof (cases e)
  case (Log l m)
  assume "resolver_event cp e"
  with Log show ?thesis by (cases m) auto
next
  case (Call c)
  assume "resolver_event cp e"
  with Call show ?thesis by (cases c) auto
qed auto

lemma resolver_event_quiet_calls:
  "\<forall>e\<in>set new. resolver_event cp e \<Longrightarrow> summarizer_calls new = [] \<and> error_logs new = []"
  by (induction new) (auto simp: summarizer_calls_def error_logs_def dest: resolver_event_quiet1)

lemma resolver_event_quiet:
  assumes "\<forall>e\<in>set new. resolver_event cp e"
  shows "summarizer_calls new = [] \<and> error_logs new = [] \<and>
     sleeps new = [] \<and> attempts new = 0 \<and> network_failures new = 0"
proof -
  from assms have "\<forall>e\<in>set new. attempt_event cp [] e"
    using resolver_attempt_event by blast
  from attempt_event_quiet[OF this] resolver_event_quiet_calls[OF assms]
  show ?thesis by simp
qed

lemma get_subtitle_empty:
  "get_subtitle en bvid n device ms w = (Inr r, w') \<Longrightarrow>
   r = None \<or> (\<exists>t. r = Some t \<and> strip t = []) \<Longrightarrow>
   files w' = files w \<and> writes (new_events w w') = []"
  by (auto simp: resolver_defs bind_exc_def new_events_def writes_def
      split: if_splits option.splits sum.splits list.splits prod.splits)

lemma writes_append: "writes (xs @ ys) = writes xs @ writes ys"
  by (simp add: writes_def)





lemma calls_logs_append:
  "summarizer_calls (xs @ ys) = summarizer_calls xs @ summarizer_calls ys"
  "error_logs (xs @ ys) = error_logs xs @ error_logs ys"
  "summarizer_calls (e # es) = summarizer_call_of e @ summarizer_calls es"
  "error_logs (e # es) = (if is_error_log e then [e] else []) @ error_logs es"
  "summarizer_calls [] = []" "error_logs [] = []"
  by (simp_all add: summarizer_calls_def error_logs_def)

text \<open>
  Claim C5. When the resolver returns no text, or a text that is empty after \<open>strip\<close>, the
  attempt logs the warning and \<open>process_page\<close> returns at once, whatever attempts are left.
  The summarizer was not called, no file was written, no error was logged and nothing was
  retried: there was one attempt and no sleep.
\<close>

theorem C5_empty_transcript:
  fixes en bvid pd prompt_text ar so w
  defines "spn \<equiv> (case so of Some n \<Rightarrow> n | None \<Rightarrow> page pd)"
  assumes g: "get_subtitle en bvid (page pd) (arg_device ar) (arg_model_size ar)
                (logging INFO (Processing spn (part pd)) w) = (Inr r, w2)"
    and e: "r = None \<or> (\<exists>t. r = Some t \<and> strip t = [])"
  shows "process_page en bvid pd prompt_text ar so w = logging WARNING (SubtitleEmpty spn) w2 \<and>
         (\<forall>attempt rest max_retries.
              retry_loop (attempt_page en bvid pd prompt_text ar spn) spn max_retries
                (attempt # rest) w = logging WARNING (SubtitleEmpty spn) w2) \<and>
         summarizer_calls (new_events w (process_page en bvid pd prompt_text ar so w)) = [] \<and>
         writes (new_events w (process_page en bvid pd prompt_text ar so w)) = [] \<and>
         files (process_page en bvid pd prompt_text ar so w) = files w \<and>
         error_logs (new_events w (process_page en bvid pd prompt_text ar so w)) = [] \<and>
         attempts (new_events w (process_page en bvid pd prompt_text ar so w)) = 1 \<and>
         sleeps (new_events w (process_page en bvid pd prompt_text ar so w)) = []"
proof -
  let ?w1 = "logging INFO (Processing spn (part pd)) w"
  let ?w' = "logging WARNING (SubtitleEmpty spn) w2"
  have a: "attempt_page en bvid pd prompt_text ar spn w = (Inr (), ?w')"
    using g e by (auto simp: attempt_page_def Let_def)
  have loop: "\<And>attempt rest max_retries.
      retry_loop (attempt_page en bvid pd prompt_text ar spn) spn max_retries (attempt # rest) w = ?w'"
    using a by simp
  have p: "process_page en bvid pd prompt_text ar so w = ?w'"
    unfolding process_page_unfold spn_def[symmetric] by (rule loop)
  from get_subtitle_extends[OF g] obtain new where
    t: "trace w2 = trace ?w1 @ new" and r: "\<forall>e\<in>set new. resolver_event (cache_file_path bvid (page pd)) e"
    by (auto simp: extends_def)
  note q = resolver_event_quiet[OF r]
  from get_subtitle_empty[OF g e] have f: "files w2 = files w" and wr: "writes (new_events ?w1 w2) = []"
    by simp_all
  from wr t have wn: "writes new = []" by (simp add: new_events_def)
  have n: "new_events w ?w' = Log INFO (Processing spn (part pd)) # new @ [Log WARNING (SubtitleEmpty spn)]"
    by (simp add: new_events_def t)
  have "summarizer_calls (new_events w ?w') = [] \<and> writes (new_events w ?w') = [] \<and>
        files ?w' = files w \<and> error_logs (new_events w ?w') = [] \<and>
        attempts (new_events w ?w') = 1 \<and> sleeps (new_events w ?w') = []"
    unfolding n using q wn f
    by (simp add: projections calls_logs_append writes_def)
  with p loop show ?thesis by simp
qed

lemma process_page_blank_example:
  "process_page (env_official [ustr '' '', []] NotModelResponse) (ustr ''BV1xx'') page1 (ustr ''p'')
     args0 None world0
   = \<lparr>files = Map.empty, dirs = {},
      trace = [Log INFO (Processing 1 (ustr ''Ep:1 / Intro? '')), Log INFO (NoCacheFound 1),
        Call (GetCid (ustr ''BV1xx'') 0), Call (GetSubtitleMeta (ustr ''BV1xx'') 7),
        Log INFO (FoundOfficial 1), Call (SessionGet (ustr ''https://host/track.json'')),
        Log WARNING (SubtitleEmpty 1)]\<rparr>"
  by (simp add: eval_defs logging_def emit_def write_file_def)

lemma get_subtitle_blank_example1:
  "get_subtitle (env_official [ustr '' '', []] NotModelResponse) (ustr ''BV1xx'') (page page1)
     (arg_device args0) (arg_model_size args0)
     (logging INFO (Processing (case None of Some n \<Rightarrow> n | None \<Rightarrow> page page1) (part page1)) world0)
   = (Inr (Some (ustr '' '' @ [10])),
      \<lparr>files = Map.empty, dirs = {},
       trace = [Log INFO (Processing 1 (ustr ''Ep:1 / Intro? '')), Log INFO (NoCacheFound 1),
        Call (GetCid (ustr ''BV1xx'') 0), Call (GetSubtitleMeta (ustr ''BV1xx'') 7),
        Log INFO (FoundOfficial 1), Call (SessionGet (ustr ''https://host/track.json''))]\<rparr>)"
  by (simp add: eval_defs logging_def emit_def write_file_def)

theorem C5_empty_transcript_witness:
  "summarizer_calls (new_events world0
     (process_page (env_official [ustr '' '', []] NotModelResponse) (ustr ''BV1xx'') page1 (ustr ''p'')
        args0 None world0)) = [] \<and>
   files (process_page (env_official [ustr '' '', []] NotModelResponse) (ustr ''BV1xx'') page1
     (ustr ''p'') args0 None world0) = files world0 \<and>
   last (trace (process_page (env_official [ustr '' '', []] NotModelResponse) (ustr ''BV1xx'') page1
     (ustr ''p'') args0 None world0)) = Log WARNING (SubtitleEmpty 1)"
proof -
  have e: "Some (ustr '' '' @ [10]) = None \<or> (\<exists>t. Some (ustr '' '' @ [10]) = Some t \<and> strip t = [])"
    by (simp add: strip_def rstrip_def lstrip_def isspace_def ustr_def)
  note c5 = C5_empty_transcript [OF get_subtitle_blank_example1 e, of "ustr ''p''"]
  have 1: "summarizer_calls (new_events world0
     (process_page (env_official [ustr '' '', []] NotModelResponse) (ustr ''BV1xx'') page1 (ustr ''p'')
        args0 None world0)) = []"
    by (rule c5 [THEN conjunct2, THEN conjunct2, THEN conjunct1])
  have 2: "files (process_page (env_official [ustr '' '', []] NotModelResponse) (ustr ''BV1xx'') page1
     (ustr ''p'') args0 None world0) = files world0"
    by (rule c5 [THEN conjunct2, THEN conjunct2, THEN conjunct2, THEN conjunct2, THEN conjunct1])
  have 3: "last (trace (process_page (env_official [ustr '' '', []] NotModelResponse) (ustr ''BV1xx'')
     page1 (ustr ''p'') args0 None world0)) = Log WARNING (SubtitleEmpty 1)"
    by (simp add: process_page_blank_example)
  from 1 2 3 show ?thesis by blast
qed

section \<open>The output writer and the checkpoint path: claims C9 and C10\<close>



lemma replicate_small: "replicate 2 x = [x, x]" "replicate 3 x = [x, x, x]"
  by (simp_all add: numeral_2_eq_2 numeral_3_eq_3)












section \<open>Existing files are left alone: claim C2\<close>

lemma safe_run_refl [simp]: "safe_run w w"
  by (simp add: safe_run_def new_events_def writes_def)

lemma safe_run_trans:
  assumes "safe_run w w1" "safe_run w1 w2"
  shows "safe_run w w2"
proof -
  from assms obtain n1 n2 where n: "trace w1 = trace w @ n1" "trace w2 = trace w1 @ n2"
    "\<forall>e\<in>set n1. benign e" "\<forall>e\<in>set n2. benign e"
    by (auto simp: safe_run_def extends_def)
  have p: "preserved w w1" "preserved w1 w2" using assms by (simp_all add: safe_run_def)
  have w1: "\<forall>p\<in>set (writes n1). files w p = None"
    using assms(1) n by (simp add: safe_run_def new_events_def)
  have w2: "\<forall>p\<in>set (writes n2). files w1 p = None"
    using assms(2) n by (simp add: safe_run_def new_events_def)
  have "\<forall>p\<in>set (writes n2). files w p = None"
  proof
    fix q assume "q \<in> set (writes n2)"
    with w2 have "files w1 q = None" by simp
    with p(1) show "files w q = None" by (auto simp: preserved_def)
  qed
  with w1 have "\<forall>p\<in>set (writes (n1 @ n2)). files w p = None" by (auto simp: writes_append)
  moreover have "new_events w w2 = n1 @ n2" using n by (simp add: new_events_def)
  moreover have "extends benign w w2" using n by (auto simp: extends_def)
  ultimately show ?thesis using preserved_trans[OF p] by (simp add: safe_run_def)
qed

lemma safe_run_emit: "benign e \<Longrightarrow> writes [e] = [] \<Longrightarrow> safe_run w (emit e w)"
  by (simp add: safe_run_def extends_def new_events_def)

lemma safe_run_logging: "benign (Log l m) \<Longrightarrow> safe_run w (logging l m w)"
  unfolding logging_def by (rule safe_run_emit) (simp_all add: writes_def)

lemma safe_run_call: "safe_run w (emit (Call c) w)"
  by (rule safe_run_emit) (simp_all add: writes_def)

lemma get_subtitle_writes:
  "get_subtitle en bvid n device ms w = (r, w') \<Longrightarrow>
   \<forall>p\<in>set (writes (new_events w w')). files w p = None"
  by (auto simp: resolver_defs bind_exc_def new_events_def writes_def
      split: if_splits option.splits sum.splits list.splits prod.splits)

lemma get_subtitle_safe:
  assumes "get_subtitle en bvid n device ms w = (r, w')"
  shows "safe_run w w'"
proof -
  have "extends benign w w'"
    by (rule extends_mono[OF get_subtitle_extends[OF assms]]) (rule resolver_benign)
  with get_subtitle_preserved[OF assms] get_subtitle_writes[OF assms]
  show ?thesis unfolding safe_run_def by blast
qed

lemma save_safe:
  assumes "files w (save_path en d n title) = None"
  shows "safe_run w (snd (save en n title c d w))"
  using assms
  by (simp add: safe_run_def preserved_def extends_def new_events_def writes_def
      snd_save_trace snd_save_files snd_save_dirs subset_insertI)

lemma attempt_page_safe:
  assumes a: "attempt_page en bvid pd prompt_text ar spn w = (r, w')"
    and f: "files w (save_path en (arg_output_dir ar) spn (part pd)) = None"
  shows "safe_run w w' \<and>
    (\<forall>e. r = Inl e \<longrightarrow> files w' (save_path en (arg_output_dir ar) spn (part pd)) = None)"
proof -
  let ?op = "save_path en (arg_output_dir ar) spn (part pd)"
  let ?w1 = "logging INFO (Processing spn (part pd)) w"
  obtain r2 w2 where g: "get_subtitle en bvid (page pd) (arg_device ar) (arg_model_size ar) ?w1 = (r2, w2)"
    by (cases "get_subtitle en bvid (page pd) (arg_device ar) (arg_model_size ar) ?w1") auto
  have s2: "safe_run w w2"
    using safe_run_trans[OF safe_run_logging get_subtitle_safe[OF g]] by simp
  have f2: "files w2 ?op = None"
    using get_subtitle_files_other[OF g, of ?op] cache_neq_save_path[of bvid "page pd"] f
    by (metis files_logging)
  have s3: "\<And>c. safe_run w (emit (Call c) w2)"
    using safe_run_trans[OF s2 safe_run_call] .
  from attempt_page_cases[OF a g] show ?thesis
  proof (elim disjE exE conjE)
    fix e assume "r2 = Inl e" "r = Inl e" "w' = w2"
    then show ?thesis using s2 f2 by simp
  next
    assume "r = Inr ()" "w' = logging WARNING (SubtitleEmpty spn) w2"
    then show ?thesis using safe_run_trans[OF s2 safe_run_logging] by simp
  next
    assume "r = Inr ()" "w' = logging WARNING (SubtitleEmpty spn) w2"
    then show ?thesis using safe_run_trans[OF s2 safe_run_logging] by simp
  next
    fix t e assume "r = Inl e" "w' = emit (Call (Acompletion prompt_text (summary_request @ t))) w2"
    then show ?thesis using s3 f2 by simp
  next
    fix t assume "r = Inr ()" "w' = logging ERROR (SummaryFailed spn)
                (emit (Call (Acompletion prompt_text (summary_request @ t))) w2)"
    then show ?thesis using safe_run_trans[OF s3 safe_run_logging] by simp
  next
    fix t s assume r: "r = Inr ()" and w': "w' = snd (save en spn (part pd) s (arg_output_dir ar)
                (emit (Call (Acompletion prompt_text (summary_request @ t))) w2))"
    have "files (emit (Call (Acompletion prompt_text (summary_request @ t))) w2) ?op = None"
      using f2 by simp
    from safe_run_trans[OF s3 save_safe[OF this]] r w' show ?thesis by simp
  qed
qed

lemma process_page_safe:
  assumes "files w (save_path en (arg_output_dir ar) (case so of Some n \<Rightarrow> n | None \<Rightarrow> page pd)
             (part pd)) = None"
  shows "safe_run w (process_page en bvid pd prompt_text ar so w)"
proof -
  let ?spn = "case so of Some n \<Rightarrow> n | None \<Rightarrow> page pd"
  let ?op = "save_path en (arg_output_dir ar) ?spn (part pd)"
  have "safe_run w (retry_loop (attempt_page en bvid pd prompt_text ar ?spn) ?spn 3 [0, 1, 2] w)"
  proof (rule retry_loop_invariant[where I = "\<lambda>w. files w ?op = None"])
    fix w r w1
    assume "files w ?op = None" "attempt_page en bvid pd prompt_text ar ?spn w = (r, w1)"
    from attempt_page_safe[OF this(2) this(1)]
    show "safe_run w w1 \<and> (\<forall>e. r = Inl e \<longrightarrow> files w1 ?op = None)" .
  next
    fix w w1 w2 assume "safe_run w w1" "safe_run w1 w2"
    then show "safe_run w w2" by (rule safe_run_trans)
  next
    fix w e assume "benign e" "writes [e] = []"
    then show "safe_run w (emit e w)" by (rule safe_run_emit)
  qed (simp_all add: assms)
  then show ?thesis by (simp add: process_page_unfold)
qed

lemma bvid_pages_safe: "safe_run w (bvid_pages en ar prompt_text pages w)"
proof (induction pages arbitrary: w)
  case Nil
  show ?case by simp
next
  case (Cons pd rest)
  show ?case
  proof (cases "os_path_exists w (save_path en (arg_output_dir ar) (page pd) (part pd))")
    case True
    have "safe_run w (logging INFO (Skipping (page pd) (part pd)) w)"
      by (rule safe_run_logging) simp
    from safe_run_trans[OF this Cons.IH] True show ?thesis
      by (simp add: bvid_pages_step del: bvid_pages.simps)
  next
    case False
    then have "files w (save_path en (arg_output_dir ar) (case None of Some n \<Rightarrow> n | None \<Rightarrow> page pd)
        (part pd)) = None"
      by (simp add: os_path_exists_def)
    from safe_run_trans[OF process_page_safe[OF this] Cons.IH] False
    show ?thesis by (simp add: bvid_pages_step del: bvid_pages.simps)
  qed
qed

lemma process_bvid_safe:
  assumes "process_bvid en ar w = (r, w')"
  shows "safe_run w w'"
proof (cases "files w (ustr ''prompt/'' @ arg_prompt ar @ ustr ''.md'')")
  case None
  with assms show ?thesis by (simp add: process_bvid_def read_prompt_def)
next
  case (Some prompt_text)
  let ?w2 = "emit (Call (GetPages (arg_bvid ar))) w"
  show ?thesis
  proof (cases "v_get_pages en (trace w) (arg_bvid ar)")
    case (Inl e)
    with Some assms have "w' = logging ERROR (FailedPages (arg_bvid ar)) ?w2"
      by (auto simp: process_bvid_def read_prompt_def)
    then show ?thesis using safe_run_trans[OF safe_run_call safe_run_logging] by simp
  next
    case (Inr all_pages)
    let ?w3 = "logging INFO (FoundPages (length all_pages) (arg_bvid ar)) ?w2"
    from Inr Some assms obtain pages where "w' = bvid_pages en ar prompt_text pages ?w3"
      by (auto simp: process_bvid_def read_prompt_def Let_def)
    moreover have "safe_run w ?w3" using safe_run_trans[OF safe_run_call safe_run_logging] by simp
    ultimately show ?thesis using safe_run_trans[OF _ bvid_pages_safe] by simp
  qed
qed

lemma benign_quiet: "\<forall>e\<in>set new. benign e \<Longrightarrow> overwrites new = [] \<and> removals new = []"
proof (induction new)
  case Nil
  show ?case by (simp add: overwrites_def removals_def)
next
  case (Cons e new)
  then have "benign e" by simp
  then have "\<not> is_overwrite e \<and> \<not> is_removal e" by (cases e) auto
  with Cons show ?case by (simp add: overwrites_def removals_def)
qed

lemma safe_run_facts:
  assumes "safe_run w w'"
  shows "(\<forall>p. files w p \<noteq> None \<longrightarrow> files w' p = files w p) \<and>
         (\<forall>p\<in>set (writes (new_events w w')). files w p = None) \<and>
         overwrites (new_events w w') = [] \<and> removals (new_events w w') = []"
proof -
  from assms have "\<forall>e\<in>set (new_events w w'). benign e"
    using extends_new_events by (auto simp: safe_run_def)
  from benign_quiet[OF this] assms show ?thesis by (simp add: safe_run_def preserved_def)
qed

text \<open>
  Claim C2. Take two runs of \<open>process_bvid\<close> on the same arguments, the second in the world
  the first has left; the collaborators may answer differently in the two runs. Every file
  that exists after the first run exists after the second with the same content, in
  particular every file that was there before the first. The second run writes only to
  paths where no file was, replaces no file and removes none. A page whose checkpoint path
  exists is skipped: the loop logs the skip and goes on with the rest, without calling
  \<open>process_page\<close>.
\<close>

theorem C2_idempotent_rerun:
  assumes r1: "process_bvid en ar w = (r1, w1)"
    and r2: "process_bvid en' ar w1 = (r2, w2)"
  shows "(\<forall>p. files w1 p \<noteq> None \<longrightarrow> files w2 p = files w1 p) \<and>
         (\<forall>p\<in>set (writes (new_events w1 w2)). files w1 p = None) \<and>
         overwrites (new_events w1 w2) = [] \<and> removals (new_events w1 w2) = [] \<and>
         (\<forall>p. files w p \<noteq> None \<longrightarrow> files w2 p = files w p) \<and>
         overwrites (new_events w w1) = [] \<and> removals (new_events w w1) = [] \<and>
         (\<forall>pd rest prompt_text w3.
            os_path_exists w3 (fst (save en' (page pd) (part pd) [] (arg_output_dir ar) w3)) \<longrightarrow>
            bvid_pages en' ar prompt_text (pd # rest) w3 =
              bvid_pages en' ar prompt_text rest (logging INFO (Skipping (page pd) (part pd)) w3))"
proof -
  note a = safe_run_facts[OF process_bvid_safe[OF r1]]
  note b = safe_run_facts[OF process_bvid_safe[OF r2]]
  have c: "\<forall>p. files w p \<noteq> None \<longrightarrow> files w2 p = files w p"
    using a b by metis
  have d: "\<forall>pd rest prompt_text w3.
            os_path_exists w3 (fst (save en' (page pd) (part pd) [] (arg_output_dir ar) w3)) \<longrightarrow>
            bvid_pages en' ar prompt_text (pd # rest) w3 =
              bvid_pages en' ar prompt_text rest (logging INFO (Skipping (page pd) (part pd)) w3)"
    by (simp add: fst_save bvid_pages_step del: bvid_pages.simps)
  show ?thesis using a b c d by blast
qed

lemmas eval_more = eval_defs answer1_def logging_def emit_def write_file_def os_makedirs_def
  replicate_small process_bvid_def read_prompt_def env_video_def world_prompt_def

lemma process_bvid_first_run:
  "process_bvid (env_video [page1] [ustr ''hi''] answer1) args0 world_prompt = (Inr (), world_done)"
  by (simp add: eval_more world_done_def)

lemma process_bvid_second_run:
  "process_bvid (env_video [page1] [ustr ''hi''] answer1) args0 world_done
   = (Inr (), world_done\<lparr>trace := trace world_done @
        [Call (GetPages (ustr ''BV1xx'')), Log INFO (FoundPages 1 (ustr ''BV1xx'')),
         Log INFO (Skipping 1 (ustr ''Ep:1 / Intro? ''))]\<rparr>)"
  by (simp add: eval_more world_done_def)

theorem C2_idempotent_rerun_witness:
  "files world_done (ustr ''result/P001_Ep1  Intro.md'') = Some (ustr ''sum'') \<and>
   files (snd (process_bvid (env_video [page1] [ustr ''hi''] answer1) args0 world_done))
     (ustr ''result/P001_Ep1  Intro.md'') = Some (ustr ''sum'') \<and>
   writes (new_events world_done
     (snd (process_bvid (env_video [page1] [ustr ''hi''] answer1) args0 world_done))) = []"
proof -
  have f: "files world_done (ustr ''result/P001_Ep1  Intro.md'') = Some (ustr ''sum'')"
    by (simp add: world_done_def)
  note c2 = C2_idempotent_rerun [OF process_bvid_first_run process_bvid_second_run]
  from c2 f have "files (world_done\<lparr>trace := trace world_done @
        [Call (GetPages (ustr ''BV1xx'')), Log INFO (FoundPages 1 (ustr ''BV1xx'')),
         Log INFO (Skipping 1 (ustr ''Ep:1 / Intro? ''))]\<rparr>)
     (ustr ''result/P001_Ep1  Intro.md'') = Some (ustr ''sum'')"
    by (metis option.distinct(1))
  then show ?thesis
    using f by (simp add: process_bvid_second_run new_events_def writes_def)
qed

section \<open>The numbering of a season: claim C6\<close>

lemma numbered_fst: "map fst (numbered c xs) = map (\<lambda>i. c + int i) [0..<length xs]"
proof (induction xs arbitrary: c)
  case Nil
  show ?case by simp
next
  case (Cons x xs)
  have "[0..<length (x # xs)] = 0 # map Suc [0..<length xs]"
    by (simp add: upt_conv_Cons map_Suc_upt del: upt_Suc)
  then show ?case using Cons[of "c + 1"] by (simp add: comp_def)
qed

lemma numbered_snd: "map snd (numbered c xs) = xs"
  by (induction xs arbitrary: c) simp_all

lemma season_pages_fold:
  "season_pages en ar bvid prompt_text c pages w =
     (c + int (length pages), foldl (season_step en ar bvid prompt_text) w (numbered c pages))"
proof (induction pages arbitrary: c w)
  case Nil
  show ?case by simp
next
  case (Cons pd rest)
  show ?case
    by (simp add: season_pages_step Cons season_step_def fst_save del: season_pages.simps)
qed

lemma season_pages_safe: "safe_run w (snd (season_pages en ar bvid prompt_text c pages w))"
proof (induction pages arbitrary: w c)
  case Nil
  show ?case by simp
next
  case (Cons pd rest)
  show ?case
  proof (cases "os_path_exists w (save_path en (arg_output_dir ar) c (part pd))")
    case True
    have "safe_run w (logging INFO (Skipping c (part pd)) w)"
      by (rule safe_run_logging) simp
    from safe_run_trans[OF this Cons.IH] True show ?thesis
      by (simp add: season_pages_step del: season_pages.simps)
  next
    case False
    then have "files w (save_path en (arg_output_dir ar) (case Some c of Some n \<Rightarrow> n | None \<Rightarrow> page pd)
        (part pd)) = None"
      by (simp add: os_path_exists_def)
    from safe_run_trans[OF process_page_safe[OF this] Cons.IH] False
    show ?thesis by (simp add: season_pages_step del: season_pages.simps)
  qed
qed

lemma season_videos_fail:
  assumes "files w (prompt_path ar) = Some prompt_text"
    and "v_get_pages en (trace w) bvid = Inl e"
  shows "season_videos en ar c (bvid # rest) w =
     season_videos en ar c rest
       (logging ERROR (FailedPagesSkipVideo bvid) (emit (Call (GetPages bvid)) w))"
  using assms by (simp add: read_prompt_def prompt_path_def)

lemma season_videos_pages:
  assumes "files w (prompt_path ar) = Some prompt_text"
    and "v_get_pages en (trace w) bvid = Inr all_pages"
  shows "season_videos en ar c (bvid # rest) w =
     season_videos en ar (c + int (length all_pages)) rest
       (foldl (season_step en ar bvid prompt_text) (emit (Call (GetPages bvid)) w)
          (numbered c all_pages))"
  using assms by (simp add: read_prompt_def prompt_path_def season_pages_fold)

lemma safe_run_prompt:
  "safe_run w w' \<Longrightarrow> files w p = Some t \<Longrightarrow> files w' p = Some t"
  by (auto simp: safe_run_def preserved_def)

lemma season_videos_total:
  assumes "files w (prompt_path ar) = Some prompt_text"
  shows "\<exists>c' w'. season_videos en ar c videos w = (Inr c', w') \<and> c \<le> c' \<and> safe_run w w'"
  using assms
proof (induction videos arbitrary: c w)
  case Nil
  show ?case by simp
next
  case (Cons bvid rest)
  let ?w2 = "emit (Call (GetPages bvid)) w"
  have s2: "safe_run w ?w2" by (rule safe_run_call)
  show ?case
  proof (cases "v_get_pages en (trace w) bvid")
    case (Inl e)
    let ?w3 = "logging ERROR (FailedPagesSkipVideo bvid) ?w2"
    have s3: "safe_run w ?w3" using safe_run_trans[OF s2 safe_run_logging] by simp
    from Cons.IH[OF safe_run_prompt[OF s3 Cons.prems], of c]
    obtain c' w' where "season_videos en ar c rest ?w3 = (Inr c', w')" "c \<le> c'" "safe_run ?w3 w'"
      by blast
    with season_videos_fail[OF Cons.prems Inl, of c rest] safe_run_trans[OF s3]
    show ?thesis by auto
  next
    case (Inr all_pages)
    let ?w3 = "foldl (season_step en ar bvid prompt_text) ?w2 (numbered c all_pages)"
    have "?w3 = snd (season_pages en ar bvid prompt_text c all_pages ?w2)"
      by (simp add: season_pages_fold)
    then have "safe_run ?w2 ?w3" using season_pages_safe by simp
    then have s3: "safe_run w ?w3" using safe_run_trans[OF s2] by blast
    from Cons.IH[OF safe_run_prompt[OF s3 Cons.prems], of "c + int (length all_pages)"]
    obtain c' w' where "season_videos en ar (c + int (length all_pages)) rest ?w3 = (Inr c', w')"
      "c + int (length all_pages) \<le> c'" "safe_run ?w3 w'"
      by blast
    with season_videos_pages[OF Cons.prems Inr, of c rest] safe_run_trans[OF s3]
    show ?thesis by auto
  qed
qed

lemma process_season_unfold:
  "process_season en ar w =
     (case series_get_videos en (trace w) (arg_season_id ar) of
        Inl e \<Rightarrow> (Inl e, emit (Call (GetVideos (arg_season_id ar))) w)
      | Inr archives \<Rightarrow>
          (case season_videos en ar 1 archives
                  (logging INFO (FoundVideos (length archives) (arg_season_id ar))
                     (emit (Call (GetVideos (arg_season_id ar))) w)) of
             (Inl e, w') \<Rightarrow> (Inl e, w')
           | (Inr counter, w') \<Rightarrow> (Inr (), w')))"
  by (simp add: process_season_def bind_exc_def split: sum.splits prod.splits)

text \<open>
  Claim C6. \<open>process_season\<close> starts its loop over the videos with the counter 1. For one
  video the loop over its pages is the iteration over the pages numbered from the counter
  on, \<open>counter, counter + 1, ...\<close>, whatever the pages' own numbers are; each page is
  skipped or processed under its number, and the counter comes back advanced by the number
  of pages, whatever happened to them. When the page list of a video cannot be fetched the
  error is logged and the loop goes on with the next video and the same counter. While the
  prompt file exists the loop over the videos raises nothing and ends with a counter that
  is no smaller.
\<close>

theorem C6_season_numbering:
  "process_season en ar w =
     (case series_get_videos en (trace w) (arg_season_id ar) of
        Inl e \<Rightarrow> (Inl e, emit (Call (GetVideos (arg_season_id ar))) w)
      | Inr archives \<Rightarrow>
          (case season_videos en ar 1 archives
                  (logging INFO (FoundVideos (length archives) (arg_season_id ar))
                     (emit (Call (GetVideos (arg_season_id ar))) w)) of
             (Inl e, w') \<Rightarrow> (Inl e, w')
           | (Inr counter, w') \<Rightarrow> (Inr (), w'))) \<and>
   season_pages en ar bvid prompt_text c pages w =
     (c + int (length pages), foldl (season_step en ar bvid prompt_text) w (numbered c pages)) \<and>
   map fst (numbered c pages) = map (\<lambda>i. c + int i) [0..<length pages] \<and>
   map snd (numbered c pages) = pages \<and>
   (\<forall>e. files w (prompt_path ar) = Some prompt_text \<and> v_get_pages en (trace w) bvid = Inl e \<longrightarrow>
      season_videos en ar c (bvid # rest) w =
        season_videos en ar c rest
          (logging ERROR (FailedPagesSkipVideo bvid) (emit (Call (GetPages bvid)) w))) \<and>
   (\<forall>all_pages. files w (prompt_path ar) = Some prompt_text \<and>
        v_get_pages en (trace w) bvid = Inr all_pages \<longrightarrow>
      season_videos en ar c (bvid # rest) w =
        season_videos en ar (c + int (length all_pages)) rest
          (foldl (season_step en ar bvid prompt_text) (emit (Call (GetPages bvid)) w)
             (numbered c all_pages))) \<and>
   (files w (prompt_path ar) = Some prompt_text \<longrightarrow>
      (\<exists>c' w'. season_videos en ar c videos w = (Inr c', w') \<and> c \<le> c'))"
  using process_season_unfold[of en ar w] season_pages_fold[of en ar bvid prompt_text c pages w]
    numbered_fst[of c pages] numbered_snd[of c pages]
    season_videos_fail[of w ar prompt_text en bvid _ c rest]
    season_videos_pages[of w ar prompt_text en bvid _ c rest]
    season_videos_total[of w ar prompt_text en c videos]
  by blast

lemmas eval_season = eval_more process_season_def env_season_def

lemma process_season_example:
  "process_season env_season args0 world_prompt =
     (Inr (),
      world_prompt\<lparr>trace :=
        [Call (GetVideos None), Log INFO (FoundVideos 3 None),
         Call (GetPages (ustr ''BVa'')),
         Log INFO (Processing 1 (ustr ''a'')), Log INFO (NoCacheFound 1),
         Call (GetCid (ustr ''BVa'') 0), Log ERROR (UnexpectedError 1),
         Log INFO (Processing 2 (ustr ''b'')), Log INFO (NoCacheFound 2),
         Call (GetCid (ustr ''BVa'') 1), Log ERROR (UnexpectedError 2),
         Call (GetPages (ustr ''BVx'')), Log ERROR (FailedPagesSkipVideo (ustr ''BVx'')),
         Call (GetPages (ustr ''BVb'')),
         Log INFO (Processing 3 (ustr ''c'')), Log INFO (NoCacheFound 1),
         Call (GetCid (ustr ''BVb'') 0), Log ERROR (UnexpectedError 3),
         Log INFO (Processing 4 (ustr ''d'')), Log INFO (NoCacheFound 2),
         Call (GetCid (ustr ''BVb'') 1), Log ERROR (UnexpectedError 4),
         Log INFO (Processing 5 (ustr ''e'')), Log INFO (NoCacheFound 3),
         Call (GetCid (ustr ''BVb'') 2), Log ERROR (UnexpectedError 5)]\<rparr>)"
  by (simp add: eval_season)

theorem C6_season_numbering_witness:
  "fst (process_season env_season args0 world_prompt) = Inr () \<and>
   save_numbers (trace (snd (process_season env_season args0 world_prompt))) = [1, 2, 3, 4, 5] \<and>
   season_videos env_season args0 3 [ustr ''BVx'', ustr ''BVb''] world_prompt =
     season_videos env_season args0 3 [ustr ''BVb'']
       (logging ERROR (FailedPagesSkipVideo (ustr ''BVx''))
          (emit (Call (GetPages (ustr ''BVx''))) world_prompt))"
proof -
  have p: "files world_prompt (prompt_path args0) = Some (ustr ''p'')"
    by (simp add: world_prompt_def prompt_path_def args0_def world0_def ustr_def)
  have g: "v_get_pages env_season (trace world_prompt) (ustr ''BVx'') = Inl ClientError"
    by (simp add: env_season_def ustr_def)
  note c6 = C6_season_numbering [where en = env_season and ar = args0 and w = world_prompt
      and prompt_text = "ustr ''p''" and bvid = "ustr ''BVx''" and c = 3 and rest = "[ustr ''BVb'']"]
  from c6 p g have 3: "season_videos env_season args0 3 [ustr ''BVx'', ustr ''BVb''] world_prompt =
     season_videos env_season args0 3 [ustr ''BVb'']
       (logging ERROR (FailedPagesSkipVideo (ustr ''BVx''))
          (emit (Call (GetPages (ustr ''BVx''))) world_prompt))"
    by blast
  have 1: "fst (process_season env_season args0 world_prompt) = Inr ()"
    by (simp add: process_season_example)
  have 2: "save_numbers (trace (snd (process_season env_season args0 world_prompt))) = [1, 2, 3, 4, 5]"
    by (simp add: process_season_example save_numbers_def)
  from 1 2 3 show ?thesis by blast
qed

section \<open>Cache eviction: claim C8\<close>

lemma cleanup_files_Cons:
  "\<exists>k'. cleanup_files en d cutoff k (f # names) w =
     cleanup_files en d cutoff k' names (cleanup_one en d cutoff f w)"
  by (auto simp: cleanup_one_def Let_def os_path_isfile_def evictable_def eviction_fails_def
      split: option.splits)

lemma cleanup_one_files:
  "files (cleanup_one en d cutoff f w) q =
     (if q = os_path_join d f \<and> evictable en cutoff q then None else files w q)"
  by (auto simp: cleanup_one_def evictable_def eviction_fails_def split: option.splits)

lemma cleanup_one_trace:
  "\<exists>new. trace (cleanup_one en d cutoff f w) = trace w @ new \<and> eviction_starts new = [] \<and>
     (files w (os_path_join d f) \<noteq> None \<and> eviction_fails en cutoff (os_path_join d f) \<longrightarrow>
        Log ERROR (ErrorRemoving (os_path_join d f)) \<in> set new)"
  by (simp add: cleanup_one_def eviction_starts_def)

lemma cleanup_files_files:
  "files (snd (cleanup_files en d cutoff k names w)) q =
     (if q \<in> os_path_join d ` set names \<and> evictable en cutoff q then None else files w q)"
proof (induction names arbitrary: k w)
  case Nil
  show ?case by simp
next
  case (Cons f names)
  from cleanup_files_Cons[of en d cutoff k f names w] obtain k' where
    "cleanup_files en d cutoff k (f # names) w =
       cleanup_files en d cutoff k' names (cleanup_one en d cutoff f w)" by blast
  then have "files (snd (cleanup_files en d cutoff k (f # names) w)) q =
     (if q \<in> os_path_join d ` set names \<and> evictable en cutoff q then None
      else files (cleanup_one en d cutoff f w) q)"
    using Cons[of k' "cleanup_one en d cutoff f w"] by simp
  then show ?case by (auto simp: cleanup_one_files)
qed

lemma cleanup_files_trace:
  "\<exists>new. trace (snd (cleanup_files en d cutoff k names w)) = trace w @ new \<and>
     eviction_starts new = [] \<and>
     (\<forall>f\<in>set names. files w (os_path_join d f) \<noteq> None \<and>
          eviction_fails en cutoff (os_path_join d f) \<longrightarrow>
        Log ERROR (ErrorRemoving (os_path_join d f)) \<in> set new)"
proof (induction names arbitrary: k w)
  case Nil
  show ?case by (simp add: eviction_starts_def)
next
  case (Cons f0 names)
  let ?w1 = "cleanup_one en d cutoff f0 w"
  from cleanup_files_Cons[of en d cutoff k f0 names w] obtain k' where
    s: "cleanup_files en d cutoff k (f0 # names) w = cleanup_files en d cutoff k' names ?w1"
    by blast
  from cleanup_one_trace[of en d cutoff f0 w] obtain a where
    a: "trace ?w1 = trace w @ a" "eviction_starts a = []"
      "files w (os_path_join d f0) \<noteq> None \<and> eviction_fails en cutoff (os_path_join d f0) \<longrightarrow>
        Log ERROR (ErrorRemoving (os_path_join d f0)) \<in> set a" by blast
  from Cons[of k' ?w1] obtain b where
    b: "trace (snd (cleanup_files en d cutoff k' names ?w1)) = trace ?w1 @ b"
      "eviction_starts b = []"
      "\<forall>f\<in>set names. files ?w1 (os_path_join d f) \<noteq> None \<and>
          eviction_fails en cutoff (os_path_join d f) \<longrightarrow>
        Log ERROR (ErrorRemoving (os_path_join d f)) \<in> set b" by blast
  have keep: "\<And>f. files w (os_path_join d f) \<noteq> None \<Longrightarrow> eviction_fails en cutoff (os_path_join d f)
      \<Longrightarrow> files ?w1 (os_path_join d f) \<noteq> None"
    by (auto simp: cleanup_one_files evictable_def eviction_fails_def split: option.splits)
  have "trace (snd (cleanup_files en d cutoff k (f0 # names) w)) = trace w @ (a @ b)"
    using s a b by simp
  moreover have "eviction_starts (a @ b) = []" using a b by (simp add: eviction_starts_def)
  moreover have "\<forall>f\<in>set (f0 # names). files w (os_path_join d f) \<noteq> None \<and>
          eviction_fails en cutoff (os_path_join d f) \<longrightarrow>
        Log ERROR (ErrorRemoving (os_path_join d f)) \<in> set (a @ b)"
    using a(3) b(3) keep by auto
  ultimately show ?case by blast
qed

lemma cleanup_cache_files:
  assumes "os_path_exists w d"
  shows "files (cleanup_cache en d max_age_days w) q =
     (if q \<in> os_path_join d ` set (os_listdir en d) \<and>
         evictable en (time_time en - real_of_int (max_age_days * 24 * 60 * 60)) q
      then None else files w q)"
proof -
  let ?c = "time_time en - real_of_int (max_age_days * 24 * 60 * 60)"
  let ?w1 = "logging INFO (CleaningUp d max_age_days) w"
  have "files (cleanup_cache en d max_age_days w)
      = files (snd (cleanup_files en d ?c 0 (os_listdir en d) ?w1))"
    using assms by (simp add: cleanup_cache_def Let_def split: prod.splits)
  then show ?thesis by (simp add: cleanup_files_files)
qed

lemma cleanup_cache_trace:
  assumes "os_path_exists w d"
  shows "\<exists>new. trace (cleanup_cache en d max_age_days w)
            = trace w @ Log INFO (CleaningUp d max_age_days) # new \<and> eviction_starts new = []"
proof -
  let ?c = "time_time en - real_of_int (max_age_days * 24 * 60 * 60)"
  let ?w1 = "logging INFO (CleaningUp d max_age_days) w"
  obtain k w2 where c: "cleanup_files en d ?c 0 (os_listdir en d) ?w1 = (k, w2)"
    by (cases "cleanup_files en d ?c 0 (os_listdir en d) ?w1") auto
  from cleanup_files_trace[of en d ?c 0 "os_listdir en d" ?w1] c
  obtain new where n: "trace w2 = trace ?w1 @ new" "eviction_starts new = []" by auto
  have "cleanup_cache en d max_age_days w = logging INFO (RemovedCount k) w2 \<or>
        cleanup_cache en d max_age_days w = logging INFO NoOutdated w2"
    using assms c by (simp add: cleanup_cache_def Let_def)
  then show ?thesis
  proof
    assume "cleanup_cache en d max_age_days w = logging INFO (RemovedCount k) w2"
    then have "trace (cleanup_cache en d max_age_days w)
        = trace w @ Log INFO (CleaningUp d max_age_days) # (new @ [Log INFO (RemovedCount k)])"
      "eviction_starts (new @ [Log INFO (RemovedCount k)]) = []"
      using n by (simp_all add: eviction_starts_def)
    then show ?thesis by blast
  next
    assume "cleanup_cache en d max_age_days w = logging INFO NoOutdated w2"
    then have "trace (cleanup_cache en d max_age_days w)
        = trace w @ Log INFO (CleaningUp d max_age_days) # (new @ [Log INFO NoOutdated])"
      "eviction_starts (new @ [Log INFO NoOutdated]) = []"
      using n by (simp_all add: eviction_starts_def)
    then show ?thesis by blast
  qed
qed

lemma cleanup_cache_error_logged:
  assumes "os_path_exists w d" "f \<in> set (os_listdir en d)" "files w (os_path_join d f) \<noteq> None"
    "eviction_fails en (time_time en - real_of_int (max_age_days * 24 * 60 * 60)) (os_path_join d f)"
  shows "Log ERROR (ErrorRemoving (os_path_join d f))
           \<in> set (new_events w (cleanup_cache en d max_age_days w))"
proof -
  let ?c = "time_time en - real_of_int (max_age_days * 24 * 60 * 60)"
  let ?w1 = "logging INFO (CleaningUp d max_age_days) w"
  let ?e = "Log ERROR (ErrorRemoving (os_path_join d f))"
  obtain k w2 where c: "cleanup_files en d ?c 0 (os_listdir en d) ?w1 = (k, w2)"
    by (cases "cleanup_files en d ?c 0 (os_listdir en d) ?w1") auto
  from cleanup_files_trace[of en d ?c 0 "os_listdir en d" ?w1] c
  obtain new where n: "trace w2 = trace ?w1 @ new"
    "\<forall>f\<in>set (os_listdir en d). files ?w1 (os_path_join d f) \<noteq> None \<and>
          eviction_fails en ?c (os_path_join d f) \<longrightarrow>
        Log ERROR (ErrorRemoving (os_path_join d f)) \<in> set new" by auto
  then have m: "?e \<in> set new" using assms by simp
  have "cleanup_cache en d max_age_days w = logging INFO (RemovedCount k) w2 \<or>
        cleanup_cache en d max_age_days w = logging INFO NoOutdated w2"
    using assms c by (simp add: cleanup_cache_def Let_def)
  then show ?thesis using m n by (auto simp: new_events_def)
qed

lemma season_videos_safe:
  assumes "season_videos en ar c videos w = (r, w')"
  shows "safe_run w w'"
proof (cases "files w (prompt_path ar)")
  case None
  with assms show ?thesis
    by (cases videos) (auto simp: read_prompt_def prompt_path_def)
next
  case (Some prompt_text)
  from season_videos_total[OF Some, of en c videos] assms show ?thesis by auto
qed

lemma process_season_safe:
  assumes "process_season en ar w = (r, w')"
  shows "safe_run w w'"
proof (cases "series_get_videos en (trace w) (arg_season_id ar)")
  case (Inl e)
  with assms have "w' = emit (Call (GetVideos (arg_season_id ar))) w"
    by (simp add: process_season_unfold)
  then show ?thesis by (simp add: safe_run_call)
next
  case (Inr archives)
  let ?w2 = "logging INFO (FoundVideos (length archives) (arg_season_id ar))
               (emit (Call (GetVideos (arg_season_id ar))) w)"
  obtain r3 w3 where s: "season_videos en ar 1 archives ?w2 = (r3, w3)"
    by (cases "season_videos en ar 1 archives ?w2") auto
  with Inr assms have "w' = w3" by (auto simp: process_season_unfold split: sum.splits)
  moreover have "safe_run w ?w2" using safe_run_trans[OF safe_run_call safe_run_logging] by simp
  ultimately show ?thesis using safe_run_trans[OF _ season_videos_safe[OF s]] by simp
qed

lemma benign_no_eviction_start:
  "\<forall>e\<in>set new. benign e \<Longrightarrow> eviction_starts new = []"
proof (induction new)
  case Nil
  show ?case by (simp add: eviction_starts_def)
next
  case (Cons e new)
  then have "benign e" by simp
  then have "\<not> is_eviction_start e"
    by (cases e rule: is_eviction_start.cases) simp_all
  with Cons show ?case by (simp add: eviction_starts_def)
qed

lemma main_unfold:
  "main en ar w0 =
     (if arg_season_id ar \<noteq> None \<and> arg_season_id ar \<noteq> Some 0
      then process_season en ar
             (credential_check en
                (cleanup_cache en CACHE_DIR CACHE_MAX_AGE_DAYS (os_makedirs CACHE_DIR w0)))
      else process_bvid en ar
             (credential_check en
                (cleanup_cache en CACHE_DIR CACHE_MAX_AGE_DAYS (os_makedirs CACHE_DIR w0))))"
  by (simp add: main_def Let_def credential_check_def)

lemma credential_check_safe: "safe_run w (credential_check en w)"
  by (simp add: credential_check_def safe_run_logging)

lemma main_safe:
  "safe_run (cleanup_cache en CACHE_DIR CACHE_MAX_AGE_DAYS (os_makedirs CACHE_DIR w0))
     (snd (main en ar w0))"
proof (cases "arg_season_id ar \<noteq> None \<and> arg_season_id ar \<noteq> Some 0")
  case True
  then show ?thesis
    using safe_run_trans[OF credential_check_safe process_season_safe[OF prod.collapse[symmetric]]]
    by (simp add: main_unfold)
next
  case False
  then show ?thesis
    using safe_run_trans[OF credential_check_safe process_bvid_safe[OF prod.collapse[symmetric]]]
    by (auto simp: main_unfold)
qed

lemma main_eviction_once:
  "eviction_starts (new_events w0 (snd (main en ar w0)))
     = [Log INFO (CleaningUp CACHE_DIR CACHE_MAX_AGE_DAYS)] \<and>
   removals (new_events (cleanup_cache en CACHE_DIR CACHE_MAX_AGE_DAYS (os_makedirs CACHE_DIR w0))
     (snd (main en ar w0))) = []"
proof -
  let ?w1 = "os_makedirs CACHE_DIR w0"
  let ?w2 = "cleanup_cache en CACHE_DIR CACHE_MAX_AGE_DAYS ?w1"
  have "os_path_exists ?w1 CACHE_DIR" by (simp add: os_path_exists_def)
  from cleanup_cache_trace[OF this, of en CACHE_MAX_AGE_DAYS] obtain a where
    a: "trace ?w2 = trace ?w1 @ Log INFO (CleaningUp CACHE_DIR CACHE_MAX_AGE_DAYS) # a"
      "eviction_starts a = []" by blast
  from main_safe[of en w0 ar] obtain b where
    b: "trace (snd (main en ar w0)) = trace ?w2 @ b" "\<forall>e\<in>set b. benign e"
    by (auto simp: safe_run_def extends_def)
  have "new_events w0 (snd (main en ar w0))
      = MakeDirs CACHE_DIR # Log INFO (CleaningUp CACHE_DIR CACHE_MAX_AGE_DAYS) # a @ b"
    using a b by (simp add: new_events_def)
  moreover have "new_events ?w2 (snd (main en ar w0)) = b" using b by (simp add: new_events_def)
  ultimately show ?thesis
    using a(2) benign_no_eviction_start[OF b(2)] benign_quiet[OF b(2)]
    by (simp add: eviction_starts_def)
qed

text \<open>
  Claim C8. \<open>main\<close> makes the cache directory, runs \<open>cleanup_cache\<close> on it with 30 days, and
  then, after the warning about a missing credential, processes in the world that leaves;
  eviction starts once in the whole run, and nothing is removed after it. \<open>cleanup_cache\<close> returns a world, so it raises nothing. In a
  directory that exists, for every name that \<open>os.listdir\<close> gives and that is a file: when
  its modification time is read and is before \<open>time.time() - max_age_days * 86400\<close> and
  \<open>os.remove\<close> succeeds, the file is gone; when the time is at or after the cutoff, the
  file is kept; when the time cannot be read or the removal fails, the file is kept and
  the error is logged. This holds for every listed file whatever happened to the others.
  Files that are not listed are as they were.
\<close>

theorem C8_cache_eviction:
  fixes en directory max_age_days w ar w0
  defines "cutoff \<equiv> time_time en - real_of_int (max_age_days * 24 * 60 * 60)"
  defines "w' \<equiv> cleanup_cache en directory max_age_days w"
  defines "started \<equiv> cleanup_cache en CACHE_DIR CACHE_MAX_AGE_DAYS (os_makedirs CACHE_DIR w0)"
  shows "(os_path_exists w directory \<longrightarrow>
           (\<forall>filename\<in>set (os_listdir en directory). \<forall>mtime.
              files w (os_path_join directory filename) \<noteq> None \<and>
              os_path_getmtime en (os_path_join directory filename) = Some mtime \<longrightarrow>
                (mtime < cutoff \<and> \<not> os_remove_fails en (os_path_join directory filename) \<longrightarrow>
                   files w' (os_path_join directory filename) = None) \<and>
                (cutoff \<le> mtime \<longrightarrow>
                   files w' (os_path_join directory filename)
                     = files w (os_path_join directory filename)) \<and>
                (mtime < cutoff \<and> os_remove_fails en (os_path_join directory filename) \<longrightarrow>
                   files w' (os_path_join directory filename)
                     = files w (os_path_join directory filename) \<and>
                   Log ERROR (ErrorRemoving (os_path_join directory filename))
                     \<in> set (new_events w w'))) \<and>
           (\<forall>filename\<in>set (os_listdir en directory).
              files w (os_path_join directory filename) \<noteq> None \<and>
              os_path_getmtime en (os_path_join directory filename) = None \<longrightarrow>
                files w' (os_path_join directory filename)
                  = files w (os_path_join directory filename) \<and>
                Log ERROR (ErrorRemoving (os_path_join directory filename))
                  \<in> set (new_events w w')) \<and>
           (\<forall>q. q \<notin> os_path_join directory ` set (os_listdir en directory) \<longrightarrow>
              files w' q = files w q)) \<and>
         CACHE_MAX_AGE_DAYS = 30 \<and>
         main en ar w0 =
           (if arg_season_id ar \<noteq> None \<and> arg_season_id ar \<noteq> Some 0
            then process_season en ar (credential_check en started)
            else process_bvid en ar (credential_check en started)) \<and>
         eviction_starts (new_events w0 (snd (main en ar w0)))
           = [Log INFO (CleaningUp CACHE_DIR 30)] \<and>
         removals (new_events started (snd (main en ar w0))) = []"
proof -
  have A: "os_path_exists w directory \<longrightarrow>
           (\<forall>filename\<in>set (os_listdir en directory). \<forall>mtime.
              files w (os_path_join directory filename) \<noteq> None \<and>
              os_path_getmtime en (os_path_join directory filename) = Some mtime \<longrightarrow>
                (mtime < cutoff \<and> \<not> os_remove_fails en (os_path_join directory filename) \<longrightarrow>
                   files w' (os_path_join directory filename) = None) \<and>
                (cutoff \<le> mtime \<longrightarrow>
                   files w' (os_path_join directory filename)
                     = files w (os_path_join directory filename)) \<and>
                (mtime < cutoff \<and> os_remove_fails en (os_path_join directory filename) \<longrightarrow>
                   files w' (os_path_join directory filename)
                     = files w (os_path_join directory filename) \<and>
                   Log ERROR (ErrorRemoving (os_path_join directory filename))
                     \<in> set (new_events w w')))"
  proof (intro impI ballI allI)
    fix filename mtime
    assume ex: "os_path_exists w directory" and f: "filename \<in> set (os_listdir en directory)"
      and h: "files w (os_path_join directory filename) \<noteq> None \<and>
              os_path_getmtime en (os_path_join directory filename) = Some mtime"
    let ?p = "os_path_join directory filename"
    have 1: "mtime < cutoff \<and> \<not> os_remove_fails en ?p \<longrightarrow> files w' ?p = None"
      using f h unfolding w'_def cutoff_def
      by (simp add: cleanup_cache_files[OF ex] evictable_def)
    have 2: "cutoff \<le> mtime \<longrightarrow> files w' ?p = files w ?p"
      using h unfolding w'_def cutoff_def
      by (simp add: cleanup_cache_files[OF ex] evictable_def)
    have 3: "mtime < cutoff \<and> os_remove_fails en ?p \<longrightarrow> files w' ?p = files w ?p \<and>
        Log ERROR (ErrorRemoving ?p) \<in> set (new_events w w')"
    proof
      assume m: "mtime < cutoff \<and> os_remove_fails en ?p"
      then have "eviction_fails en cutoff ?p" using h by (simp add: eviction_fails_def)
      then have "Log ERROR (ErrorRemoving ?p) \<in> set (new_events w w')"
        unfolding w'_def cutoff_def using cleanup_cache_error_logged[OF ex f] h by blast
      moreover have "files w' ?p = files w ?p"
        using h m unfolding w'_def cutoff_def
        by (simp add: cleanup_cache_files[OF ex] evictable_def)
      ultimately show "files w' ?p = files w ?p \<and>
        Log ERROR (ErrorRemoving ?p) \<in> set (new_events w w')" by simp
    qed
    from 1 2 3 show "(mtime < cutoff \<and> \<not> os_remove_fails en ?p \<longrightarrow> files w' ?p = None) \<and>
        (cutoff \<le> mtime \<longrightarrow> files w' ?p = files w ?p) \<and>
        (mtime < cutoff \<and> os_remove_fails en ?p \<longrightarrow> files w' ?p = files w ?p \<and>
           Log ERROR (ErrorRemoving ?p) \<in> set (new_events w w'))" by blast
  qed
  have B: "os_path_exists w directory \<longrightarrow>
           (\<forall>filename\<in>set (os_listdir en directory).
              files w (os_path_join directory filename) \<noteq> None \<and>
              os_path_getmtime en (os_path_join directory filename) = None \<longrightarrow>
                files w' (os_path_join directory filename)
                  = files w (os_path_join directory filename) \<and>
                Log ERROR (ErrorRemoving (os_path_join directory filename))
                  \<in> set (new_events w w'))"
  proof (intro impI ballI)
    fix filename
    assume ex: "os_path_exists w directory" and f: "filename \<in> set (os_listdir en directory)"
      and h: "files w (os_path_join directory filename) \<noteq> None \<and>
              os_path_getmtime en (os_path_join directory filename) = None"
    let ?p = "os_path_join directory filename"
    have "eviction_fails en cutoff ?p" using h by (simp add: eviction_fails_def)
    then have "Log ERROR (ErrorRemoving ?p) \<in> set (new_events w w')"
      unfolding w'_def cutoff_def using cleanup_cache_error_logged[OF ex f] h by blast
    moreover have "files w' ?p = files w ?p"
      using h unfolding w'_def cutoff_def
      by (simp add: cleanup_cache_files[OF ex] evictable_def)
    ultimately show "files w' ?p = files w ?p \<and>
        Log ERROR (ErrorRemoving ?p) \<in> set (new_events w w')" by simp
  qed
  have C: "os_path_exists w directory \<longrightarrow>
      (\<forall>q. q \<notin> os_path_join directory ` set (os_listdir en directory) \<longrightarrow> files w' q = files w q)"
    unfolding w'_def by (simp add: cleanup_cache_files)
  have D: "CACHE_MAX_AGE_DAYS = 30" by (simp add: CACHE_MAX_AGE_DAYS_def)
  have E: "main en ar w0 =
           (if arg_season_id ar \<noteq> None \<and> arg_season_id ar \<noteq> Some 0
            then process_season en ar (credential_check en started)
            else process_bvid en ar (credential_check en started))"
    unfolding started_def by (rule main_unfold)
  have F: "eviction_starts (new_events w0 (snd (main en ar w0)))
           = [Log INFO (CleaningUp CACHE_DIR 30)] \<and>
         removals (new_events started (snd (main en ar w0))) = []"
    unfolding started_def using main_eviction_once[of w0 en ar] by (simp add: D)
  from A B C D E F show ?thesis by blast
qed

lemma cleanup_cache_example:
  "cleanup_cache env_cache CACHE_DIR CACHE_MAX_AGE_DAYS (os_makedirs CACHE_DIR world_cache)
   = \<lparr>files = [ustr ''.cache/subtitles/new.txt'' \<mapsto> ustr ''b'',
                ustr ''.cache/subtitles/locked.txt'' \<mapsto> ustr ''c'',
                ustr ''.cache/subtitles/nostat.txt'' \<mapsto> ustr ''d''],
       dirs = {ustr ''.cache/subtitles''},
       trace = [MakeDirs (ustr ''.cache/subtitles''),
         Log INFO (CleaningUp (ustr ''.cache/subtitles'') 30),
         FileRemove (ustr ''.cache/subtitles/old.txt''),
         Log ERROR (ErrorRemoving (ustr ''.cache/subtitles/locked.txt'')),
         Log ERROR (ErrorRemoving (ustr ''.cache/subtitles/nostat.txt'')),
         Log INFO (RemovedCount 1)]\<rparr>"
  by (simp add: cleanup_cache_def CACHE_DIR_def CACHE_MAX_AGE_DAYS_def env_cache_def
      env_raising_def world_cache_def world0_def os_makedirs_def os_remove_def os_path_exists_def
      os_path_isfile_def os_path_join_def logging_def emit_def Let_def ustr_def fun_upd_twist)

theorem C8_cache_eviction_witness:
  "files (cleanup_cache env_cache CACHE_DIR CACHE_MAX_AGE_DAYS (os_makedirs CACHE_DIR world_cache))
     (ustr ''.cache/subtitles/old.txt'') = None \<and>
   files (cleanup_cache env_cache CACHE_DIR CACHE_MAX_AGE_DAYS (os_makedirs CACHE_DIR world_cache))
     (ustr ''.cache/subtitles/new.txt'') = Some (ustr ''b'') \<and>
   files (cleanup_cache env_cache CACHE_DIR CACHE_MAX_AGE_DAYS (os_makedirs CACHE_DIR world_cache))
     (ustr ''.cache/subtitles/locked.txt'') = Some (ustr ''c'') \<and>
   Log ERROR (ErrorRemoving (ustr ''.cache/subtitles/locked.txt''))
     \<in> set (trace (cleanup_cache env_cache CACHE_DIR CACHE_MAX_AGE_DAYS
                (os_makedirs CACHE_DIR world_cache)))"
proof -
  let ?w = "os_makedirs CACHE_DIR world_cache"
  let ?W = "cleanup_cache env_cache CACHE_DIR CACHE_MAX_AGE_DAYS ?w"
  have ex: "os_path_exists ?w CACHE_DIR" by (simp add: os_path_exists_def)
  have l: "ustr ''old.txt'' \<in> set (os_listdir env_cache CACHE_DIR)"
    by (simp add: env_cache_def)
  have p: "os_path_join CACHE_DIR (ustr ''old.txt'') = ustr ''.cache/subtitles/old.txt''"
    by (simp add: os_path_join_def CACHE_DIR_def ustr_def)
  have h: "files ?w (ustr ''.cache/subtitles/old.txt'') \<noteq> None \<and>
      os_path_getmtime env_cache (ustr ''.cache/subtitles/old.txt'') = Some 0"
    by (simp add: world_cache_def world0_def env_cache_def ustr_def)
  have c: "(0::real) < time_time env_cache - real_of_int (CACHE_MAX_AGE_DAYS * 24 * 60 * 60) \<and>
      \<not> os_remove_fails env_cache (ustr ''.cache/subtitles/old.txt'')"
    by (simp add: env_cache_def CACHE_MAX_AGE_DAYS_def ustr_def)
  note c8 = C8_cache_eviction [where en = env_cache and directory = CACHE_DIR
      and max_age_days = CACHE_MAX_AGE_DAYS and w = ?w]
  from c8 ex l h c have 1: "files ?W (ustr ''.cache/subtitles/old.txt'') = None"
    unfolding p[symmetric] by blast
  have 2: "files ?W (ustr ''.cache/subtitles/new.txt'') = Some (ustr ''b'') \<and>
     files ?W (ustr ''.cache/subtitles/locked.txt'') = Some (ustr ''c'') \<and>
     Log ERROR (ErrorRemoving (ustr ''.cache/subtitles/locked.txt'')) \<in> set (trace ?W)"
    by (simp add: cleanup_cache_example) (simp add: ustr_def)
  from 1 2 show ?thesis by blast
qed

end
